theory Spec2Isabelle
  imports Main
begin

section \<open>Qt string primitives used by the helper service\<close>

text \<open>
  The sources use \<open>QString\<close> through a handful of library calls. They are Qt library
  functions, not code of the repository; the definitions below follow the Qt
  documentation. A \<open>QString\<close> is modelled as a \<open>string\<close> whose characters are the code
  points 0..255; a C++ \<open>int\<close> is an \<open>int\<close> between \<open>INT_MIN\<close> and \<open>INT_MAX\<close>.
\<close>

definition INT_MAX :: int where
  "INT_MAX = 2147483647"

definition INT_MIN :: int where
  "INT_MIN = - 2147483648"

definition is_int :: "int \<Rightarrow> bool" where
  "is_int n = (INT_MIN \<le> n \<and> n \<le> INT_MAX)"

definition isSpace :: "char \<Rightarrow> bool" where
  \<comment> \<open>\<open>QChar::isSpace\<close>: space, the controls 9..13, NEL and no-break space.\<close>
  "isSpace c = (let u = (of_char c :: int) in u = 32 \<or> (9 \<le> u \<and> u \<le> 13) \<or> u = 133 \<or> u = 160)"

definition isDigit :: "char \<Rightarrow> bool" where
  "isDigit c = (let u = (of_char c :: int) in 48 \<le> u \<and> u \<le> 57)"

definition digitValue :: "char \<Rightarrow> int" where
  "digitValue c = of_char c - 48"

definition trimmed :: "string \<Rightarrow> string" where
  \<comment> \<open>\<open>QString::trimmed\<close>: whitespace removed from both ends.\<close>
  "trimmed s = rev (dropWhile isSpace (rev (dropWhile isSpace s)))"

fun splitBy :: "(char \<Rightarrow> bool) \<Rightarrow> string \<Rightarrow> string list" where
  \<comment> \<open>The pieces between the separator characters, empty pieces kept: a string with
      no separator gives one piece, the empty string one empty piece.\<close>
  "splitBy isSep [] = [[]]"
| "splitBy isSep (c # cs) =
     (if isSep c then [] # splitBy isSep cs
      else (case splitBy isSep cs of [] \<Rightarrow> [[c]] | p # ps \<Rightarrow> (c # p) # ps))"

definition split :: "char \<Rightarrow> string \<Rightarrow> string list" where
  \<comment> \<open>\<open>QString::split(sep)\<close> with \<open>Qt::KeepEmptyParts\<close>, the default.\<close>
  "split sep s = splitBy (\<lambda>c. c = sep) s"

definition split_SkipEmptyParts :: "char \<Rightarrow> string \<Rightarrow> string list" where
  \<comment> \<open>\<open>QString::split(sep, Qt::SkipEmptyParts)\<close>.\<close>
  "split_SkipEmptyParts sep s = filter (\<lambda>p. p \<noteq> []) (split sep s)"

definition isRegexSpace :: "char \<Rightarrow> bool" where
  \<comment> \<open>What \<open>\s\<close> matches in a \<open>QRegularExpression\<close> without Unicode properties.\<close>
  "isRegexSpace c = (let u = (of_char c :: int) in u = 32 \<or> (9 \<le> u \<and> u \<le> 13))"

definition split_whitespace_SkipEmptyParts :: "string \<Rightarrow> string list" where
  \<comment> \<open>\<open>QString::split(QRegularExpression("\\s+"), Qt::SkipEmptyParts)\<close>: cutting at
      runs of whitespace and dropping empty pieces is cutting at each whitespace
      character and dropping empty pieces.\<close>
  "split_whitespace_SkipEmptyParts s = filter (\<lambda>p. p \<noteq> []) (splitBy isRegexSpace s)"

definition contains :: "char \<Rightarrow> string \<Rightarrow> bool" where
  "contains c s = (c \<in> set s)"

definition toInt :: "string \<Rightarrow> int" where
  \<comment> \<open>\<open>QString::toInt()\<close>, base 10: surrounding whitespace is ignored, an optional sign
      is followed by at least one digit and nothing else, the value fits an \<open>int\<close>;
      every other string converts to 0.\<close>
  "toInt s =
     (let t = trimmed s;
          neg = (t \<noteq> [] \<and> hd t = CHR ''-'');
          ds = (if t \<noteq> [] \<and> (hd t = CHR ''-'' \<or> hd t = CHR ''+'') then tl t else t)
      in if ds = [] \<or> \<not> list_all isDigit ds then 0
         else (let v = foldl (\<lambda>a c. a * 10 + digitValue c) 0 ds;
                   r = (if neg then - v else v)
               in if is_int r then r else 0))"

function digits :: "int \<Rightarrow> string" where
  \<comment> \<open>The decimal digits of a number that is not negative.\<close>
  "digits n = (if n < 10 then [char_of (48 + n)] else digits (n div 10) @ [char_of (48 + n mod 10)])"
  by pat_completeness auto
termination
  by (relation "measure nat") auto

definition number :: "int \<Rightarrow> string" where
  \<comment> \<open>\<open>QString::number(n)\<close>: the decimal digits, after a minus sign when \<open>n\<close> is negative.\<close>
  "number n = (if n < 0 then CHR ''-'' # digits (- n) else digits n)"

section \<open>Parsing CPU range lists\<close>

text \<open>
  \<open>HelperService::parseCpuList\<close>. The inner loop \<open>for (int i = start; i <= end; ++i)\<close>
  increments a C++ \<open>int\<close>: when \<open>i\<close> is \<open>INT_MAX\<close> the increment overflows, which is
  undefined behaviour, and with wrap-around the condition \<open>i <= end\<close> would hold for ever.
  Either way the function hands no list back; that outcome is the value \<open>None\<close>.
\<close>

function parseCpuList_range :: "int \<Rightarrow> int \<Rightarrow> int list \<Rightarrow> int list option" where
  "parseCpuList_range i end result =
     (if i \<le> end
      then (if i = INT_MAX then None else parseCpuList_range (i + 1) end (result @ [i]))
      else Some result)"
  by pat_completeness auto
termination
  by (relation "measure (\<lambda>(i, end, result). nat (end + 1 - i))") auto

definition parseCpuList_part :: "string \<Rightarrow> int list \<Rightarrow> int list option" where
  \<comment> \<open>The body of the loop over the comma-separated parts.\<close>
  "parseCpuList_part part result =
     (if contains CHR ''-'' part
      then (let range = split CHR ''-'' part
            in if length range = 2
               then (let start = toInt (range ! 0); end = toInt (range ! 1)
                     in parseCpuList_range start end result)
               else Some result)
      else Some (result @ [toInt part]))"

fun parseCpuList_parts :: "string list \<Rightarrow> int list \<Rightarrow> int list option" where
  "parseCpuList_parts [] result = Some result"
| "parseCpuList_parts (part # parts) result =
     (case parseCpuList_part part result of
        None \<Rightarrow> None
      | Some result' \<Rightarrow> parseCpuList_parts parts result')"

definition parseCpuList :: "string \<Rightarrow> int list option" where
  "parseCpuList content =
     (let t = trimmed content
      in if t = [] then Some []
         else parseCpuList_parts (split_SkipEmptyParts CHR '','' t) [])"

definition parseList :: "string \<Rightarrow> string list" where
  "parseList content =
     (let t = trimmed content
      in if t = [] then [] else split_whitespace_SkipEmptyParts t)"

section \<open>The privileged helper service\<close>

text \<open>
  \<open>HelperService\<close> (the version with the idle timer). The kernel's control files are
  a store from path to content; \<open>writable\<close> says whether \<open>QFile::open(WriteOnly)\<close>
  succeeds on a path. The store is passive: it keeps what is written, so a state with
  \<open>min > max\<close> is representable and the order of the writes is what rules it out.
  Two history fields record what the service did: \<open>write_attempts\<close> every call of
  \<open>writeSysfsFile\<close>, \<open>polkit_calls\<close> every call sent to the policy authority.
\<close>

record helper_state =
  m_authorizedSenders :: "string \<rightharpoonup> bool"
  m_idleTimeoutSecs :: int
  idle_timer :: "int option"
  files :: "string \<rightharpoonup> string"
  writable :: "string \<Rightarrow> bool"
  write_attempts :: "(string \<times> string) list"
  polkit_calls :: "(string \<times> string) list"

text \<open>
  The reply of \<open>org.freedesktop.PolicyKit1.Authority.CheckAuthorization\<close>: an error
  message, or a method return whose first argument should be the structure
  \<open>(bba{ss})\<close>. Reading the two booleans out of an argument that is not such a
  structure leaves both \<open>false\<close> (\<open>QDBusArgument\<close>'s extraction operators).
\<close>

datatype dbus_value = AuthorizationResult bool bool "(string \<times> string) list" | OtherValue

datatype polkit_reply = ErrorMessage string | MethodReturn "dbus_value list"

text \<open>
  What one incoming call brings with it: whether it came over D-Bus, the sender's bus
  name, and the reply the policy authority gives if it is asked during this call.
\<close>

record call_env =
  calledFromDBus :: bool
  message_service :: string
  authority_reply :: polkit_reply

definition SYS_CPU_PATH :: string where "SYS_CPU_PATH = ''/sys/devices/system/cpu''"
definition CPUFREQ_DIR :: string where "CPUFREQ_DIR = ''cpufreq''"
definition SCALING_MIN_FREQ :: string where "SCALING_MIN_FREQ = ''scaling_min_freq''"
definition SCALING_MAX_FREQ :: string where "SCALING_MAX_FREQ = ''scaling_max_freq''"
definition SCALING_GOVERNOR :: string where "SCALING_GOVERNOR = ''scaling_governor''"
definition ENERGY_PERF_AVAIL :: string where
  "ENERGY_PERF_AVAIL = ''energy_performance_available_preferences''"
definition ENERGY_PERF_PREF :: string where "ENERGY_PERF_PREF = ''energy_performance_preference''"
definition ONLINE_FILE :: string where "ONLINE_FILE = ''online''"

definition apply_runtime :: string where
  \<comment> \<open>The default action of \<open>isAuthorized\<close>.\<close>
  "apply_runtime = ''io.github.cpupower_gui.qt.apply_runtime''"

definition cpufreqPath :: "int \<Rightarrow> string" where
  "cpufreqPath cpu = SYS_CPU_PATH @ ''/cpu'' @ number cpu @ ''/'' @ CPUFREQ_DIR"

definition cpuOnlinePath :: "int \<Rightarrow> string" where
  \<comment> \<open>\<open>QStringLiteral("%1/cpu%2/%3").arg(SYS_CPU_PATH).arg(cpu).arg(ONLINE_FILE)\<close>.\<close>
  "cpuOnlinePath cpu = SYS_CPU_PATH @ ''/cpu'' @ number cpu @ ''/'' @ ONLINE_FILE"

definition filePath :: "string \<Rightarrow> string \<Rightarrow> string" where
  \<comment> \<open>\<open>QStringLiteral("%1/%2").arg(dir, name)\<close>.\<close>
  "filePath dir name = dir @ ''/'' @ name"

definition int_product :: "int \<Rightarrow> int \<Rightarrow> int" where
  \<comment> \<open>The product of two C++ \<open>int\<close>s as a 32-bit machine computes it: the exact
      product when it fits, wrapped around otherwise.\<close>
  "int_product a b = (a * b + 2147483648) mod 4294967296 - 2147483648"

definition resetIdleTimer :: "helper_state \<Rightarrow> helper_state" where
  \<comment> \<open>\<open>idle_timer\<close> is the interval in milliseconds the single-shot timer was last
      started with.\<close>
  "resetIdleTimer st =
     (if m_idleTimeoutSecs st > 0
      then st\<lparr>idle_timer := Some (int_product (m_idleTimeoutSecs st) 1000)\<rparr>
      else st)"

definition readSysfsFile :: "helper_state \<Rightarrow> string \<Rightarrow> string" where
  "readSysfsFile st path = (case files st path of None \<Rightarrow> [] | Some content \<Rightarrow> content)"

definition fileExists :: "helper_state \<Rightarrow> string \<Rightarrow> bool" where
  \<comment> \<open>\<open>QFile::exists(path)\<close>.\<close>
  "fileExists st path = (files st path \<noteq> None)"

definition writeSysfsFile :: "string \<Rightarrow> string \<Rightarrow> helper_state \<Rightarrow> bool \<times> helper_state" where
  "writeSysfsFile path v st =
     (let st' = st\<lparr>write_attempts := write_attempts st @ [(path, v)]\<rparr>
      in if \<not> writable st path then (False, st')
         else (True, st'\<lparr>files := (files st)(path \<mapsto> v)\<rparr>))"

text \<open>
  The read-only queries restart the idle timer too. Inside a mutation the timer has
  just been restarted with the same interval, so there the queries are pure reads.
\<close>

definition get_cpus_online :: "helper_state \<Rightarrow> int list option" where
  "get_cpus_online st = parseCpuList (readSysfsFile st (SYS_CPU_PATH @ ''/online''))"

definition get_cpus_present :: "helper_state \<Rightarrow> int list option" where
  "get_cpus_present st = parseCpuList (readSysfsFile st (SYS_CPU_PATH @ ''/present''))"

definition isOnline :: "helper_state \<Rightarrow> int \<Rightarrow> bool option" where
  "isOnline st cpu = map_option (\<lambda>online. cpu \<in> set online) (get_cpus_online st)"

definition isPresent :: "helper_state \<Rightarrow> int \<Rightarrow> bool option" where
  "isPresent st cpu = map_option (\<lambda>present. cpu \<in> set present) (get_cpus_present st)"

definition present_and_online :: "helper_state \<Rightarrow> int \<Rightarrow> bool option" where
  \<comment> \<open>The negation of the guard \<open>!isPresent(cpu) || !isOnline(cpu)\<close>; \<open>||\<close> does not
      evaluate \<open>isOnline\<close> for a CPU that is not present.\<close>
  "present_and_online st cpu =
     (case isPresent st cpu of
        None \<Rightarrow> None
      | Some present \<Rightarrow> if \<not> present then Some False else isOnline st cpu)"

definition get_cpu_energy_preferences :: "helper_state \<Rightarrow> int \<Rightarrow> string list option" where
  "get_cpu_energy_preferences st cpu =
     (case present_and_online st cpu of
        None \<Rightarrow> None
      | Some ok \<Rightarrow>
          if \<not> ok then Some []
          else Some (parseList (readSysfsFile st (filePath (cpufreqPath cpu) ENERGY_PERF_AVAIL))))"

subsection \<open>Authorization\<close>

fun read_result :: "dbus_value \<Rightarrow> bool \<times> bool" where
  "read_result (AuthorizationResult isAuthorized isChallenge details) = (isAuthorized, isChallenge)"
| "read_result OtherValue = (False, False)"

definition checkPolkitAuthorization ::
  "polkit_reply \<Rightarrow> string \<Rightarrow> string \<Rightarrow> helper_state \<Rightarrow> bool \<times> helper_state" where
  "checkPolkitAuthorization reply sender actionId st =
     (let cacheKey = sender @ actionId
      in case m_authorizedSenders st cacheKey of
           Some cached \<Rightarrow> (cached, st)
         | None \<Rightarrow>
             (let st1 = st\<lparr>polkit_calls := polkit_calls st @ [(sender, actionId)]\<rparr>
              in case reply of
                   ErrorMessage e \<Rightarrow> (False, st1)
                 | MethodReturn arguments \<Rightarrow>
                     if arguments = [] then (False, st1)
                     else (let (isAuthorized, isChallenge) = read_result (hd arguments)
                           in if isAuthorized \<and> \<not> isChallenge
                              then (isAuthorized,
                                    st1\<lparr>m_authorizedSenders :=
                                           (m_authorizedSenders st1)(cacheKey \<mapsto> True)\<rparr>)
                              else (isAuthorized, st1))))"

definition isAuthorized :: "call_env \<Rightarrow> string \<Rightarrow> helper_state \<Rightarrow> bool \<times> helper_state" where
  "isAuthorized env actionId st =
     (if \<not> calledFromDBus env then (True, st)
      else checkPolkitAuthorization (authority_reply env) (message_service env) actionId st)"

subsection \<open>Mutations\<close>

text \<open>
  Every mutation returns the D-Bus result code and the new state, or \<open>None\<close> when
  reading the CPU lists does not return. The arguments are C++ \<open>int\<close>s.
\<close>

definition update_cpu_settings ::
  "call_env \<Rightarrow> int \<Rightarrow> int \<Rightarrow> int \<Rightarrow> helper_state \<Rightarrow> (int \<times> helper_state) option" where
  "update_cpu_settings env cpu freq_min freq_max st =
     (let (authorized, st1) = isAuthorized env apply_runtime (resetIdleTimer st)
      in if \<not> authorized then Some (- 1, st1)
         else case present_and_online st1 cpu of
                None \<Rightarrow> None
              | Some ok \<Rightarrow>
                  if \<not> ok then Some (- 1, st1)
                  else
                    (let basePath = cpufreqPath cpu;
                         curMin = toInt (trimmed (readSysfsFile st1 (filePath basePath SCALING_MIN_FREQ)));
                         curMax = toInt (trimmed (readSysfsFile st1 (filePath basePath SCALING_MAX_FREQ)))
                     in if freq_max < curMin then
                          (let (ok1, st2) = writeSysfsFile (filePath basePath SCALING_MIN_FREQ)
                                              (number freq_min) st1;
                               (ok2, st3) = writeSysfsFile (filePath basePath SCALING_MAX_FREQ)
                                              (number freq_max) st2
                           in Some (if ok1 \<and> ok2 then 0 else - 13, st3))
                        else if freq_min > curMax then
                          (let (ok1, st2) = writeSysfsFile (filePath basePath SCALING_MAX_FREQ)
                                              (number freq_max) st1;
                               (ok2, st3) = writeSysfsFile (filePath basePath SCALING_MIN_FREQ)
                                              (number freq_min) st2
                           in Some (if ok1 \<and> ok2 then 0 else - 13, st3))
                        else
                          (let (ok1, st2) = writeSysfsFile (filePath basePath SCALING_MIN_FREQ)
                                              (number freq_min) st1;
                               (ok2, st3) = writeSysfsFile (filePath basePath SCALING_MAX_FREQ)
                                              (number freq_max) st2
                           in Some (if ok1 \<and> ok2 then 0 else - 13, st3))))"

definition update_cpu_governor ::
  "call_env \<Rightarrow> int \<Rightarrow> string \<Rightarrow> helper_state \<Rightarrow> (int \<times> helper_state) option" where
  "update_cpu_governor env cpu governor st =
     (let (authorized, st1) = isAuthorized env apply_runtime (resetIdleTimer st)
      in if \<not> authorized then Some (- 1, st1)
         else case present_and_online st1 cpu of
                None \<Rightarrow> None
              | Some ok \<Rightarrow>
                  if \<not> ok then Some (- 1, st1)
                  else
                    (let path = filePath (cpufreqPath cpu) SCALING_GOVERNOR;
                         (written, st2) = writeSysfsFile path governor st1
                     in if \<not> written then Some (- 13, st2) else Some (0, st2)))"

definition update_cpu_energy_prefs ::
  "call_env \<Rightarrow> int \<Rightarrow> string \<Rightarrow> helper_state \<Rightarrow> (int \<times> helper_state) option" where
  "update_cpu_energy_prefs env cpu pref st =
     (let (authorized, st1) = isAuthorized env apply_runtime (resetIdleTimer st)
      in if \<not> authorized then Some (- 1, st1)
         else case present_and_online st1 cpu of
                None \<Rightarrow> None
              | Some ok \<Rightarrow>
                  if \<not> ok then Some (- 1, st1)
                  else case get_cpu_energy_preferences st1 cpu of
                         None \<Rightarrow> None
                       | Some available \<Rightarrow>
                           if pref \<notin> set available then Some (0, st1)
                           else
                             (let path = filePath (cpufreqPath cpu) ENERGY_PERF_PREF
                              in if \<not> fileExists st1 path then Some (0, st1)
                                 else (let (written, st2) = writeSysfsFile path pref st1
                                       in if \<not> written then Some (- 13, st2) else Some (0, st2))))"

definition set_cpu_online :: "call_env \<Rightarrow> int \<Rightarrow> helper_state \<Rightarrow> (int \<times> helper_state) option" where
  "set_cpu_online env cpu st =
     (let (authorized, st1) = isAuthorized env apply_runtime (resetIdleTimer st)
      in if \<not> authorized then Some (- 1, st1)
         else (let path = cpuOnlinePath cpu
               in if \<not> fileExists st1 path then Some (- 1, st1)
                  else (let (written, st2) = writeSysfsFile path ''1'' st1
                        in if \<not> written then Some (- 13, st2) else Some (0, st2))))"

definition set_cpu_offline :: "call_env \<Rightarrow> int \<Rightarrow> helper_state \<Rightarrow> (int \<times> helper_state) option" where
  "set_cpu_offline env cpu st =
     (let (authorized, st1) = isAuthorized env apply_runtime (resetIdleTimer st)
      in if \<not> authorized then Some (- 1, st1)
         else (let path = cpuOnlinePath cpu
               in if \<not> fileExists st1 path then Some (- 1, st1)
                  else (let (written, st2) = writeSysfsFile path ''0'' st1
                        in if \<not> written then Some (- 13, st2) else Some (0, st2))))"

text \<open>
  What a reader of the two frequency files sees, as \<open>get_cpu_frequencies\<close> reads them.
\<close>

definition scaling_min :: "helper_state \<Rightarrow> int \<Rightarrow> int" where
  "scaling_min st cpu = toInt (trimmed (readSysfsFile st (filePath (cpufreqPath cpu) SCALING_MIN_FREQ)))"

definition scaling_max :: "helper_state \<Rightarrow> int \<Rightarrow> int" where
  "scaling_max st cpu = toInt (trimmed (readSysfsFile st (filePath (cpufreqPath cpu) SCALING_MAX_FREQ)))"

fun states_after_writes :: "(string \<times> string) list \<Rightarrow> helper_state \<Rightarrow> helper_state list" where
  \<comment> \<open>The state after each write of a sequence of \<open>writeSysfsFile\<close> calls.\<close>
  "states_after_writes [] st = []"
| "states_after_writes ((path, v) # ws) st =
     (let st' = snd (writeSysfsFile path v st) in st' # states_after_writes ws st')"

section \<open>The older copies of two helper functions\<close>

text \<open>
  The repository also holds an older copy of \<open>helperservice.cpp\<close>, without the idle
  timer. Two of its functions differ from the current ones in what the properties
  below are about: its \<open>checkPolkitAuthorization\<close> caches every reply it could parse,
  and its \<open>update_cpu_settings\<close> always writes the minimum first and returns at the
  first write that fails.
\<close>

definition checkPolkitAuthorization_old ::
  "polkit_reply \<Rightarrow> string \<Rightarrow> string \<Rightarrow> helper_state \<Rightarrow> bool \<times> helper_state" where
  "checkPolkitAuthorization_old reply sender actionId st =
     (let cacheKey = sender @ actionId
      in case m_authorizedSenders st cacheKey of
           Some cached \<Rightarrow> (cached, st)
         | None \<Rightarrow>
             (let st1 = st\<lparr>polkit_calls := polkit_calls st @ [(sender, actionId)]\<rparr>
              in case reply of
                   ErrorMessage e \<Rightarrow> (False, st1)
                 | MethodReturn arguments \<Rightarrow>
                     if arguments = [] then (False, st1)
                     else (let (isAuthorized, isChallenge) = read_result (hd arguments)
                           in (isAuthorized,
                               st1\<lparr>m_authorizedSenders :=
                                      (m_authorizedSenders st1)(cacheKey \<mapsto> isAuthorized)\<rparr>))))"

definition isAuthorized_old :: "call_env \<Rightarrow> string \<Rightarrow> helper_state \<Rightarrow> bool \<times> helper_state" where
  "isAuthorized_old env actionId st =
     (if \<not> calledFromDBus env then (True, st)
      else checkPolkitAuthorization_old (authority_reply env) (message_service env) actionId st)"

definition update_cpu_settings_old ::
  "call_env \<Rightarrow> int \<Rightarrow> int \<Rightarrow> int \<Rightarrow> helper_state \<Rightarrow> (int \<times> helper_state) option" where
  "update_cpu_settings_old env cpu freq_min freq_max st =
     (let (authorized, st1) = isAuthorized_old env apply_runtime st
      in if \<not> authorized then Some (- 1, st1)
         else case present_and_online st1 cpu of
                None \<Rightarrow> None
              | Some ok \<Rightarrow>
                  if \<not> ok then Some (- 1, st1)
                  else
                    (let basePath = cpufreqPath cpu;
                         (ok1, st2) = writeSysfsFile (filePath basePath SCALING_MIN_FREQ)
                                        (number freq_min) st1
                     in if \<not> ok1 then Some (- 13, st2)
                        else (let (ok2, st3) = writeSysfsFile (filePath basePath SCALING_MAX_FREQ)
                                                 (number freq_max) st2
                              in if \<not> ok2 then Some (- 13, st3) else Some (0, st3))))"

section \<open>The client-side operation scheduler\<close>

text \<open>
  \<open>DbusHelper\<close> (the version with the operation queue). An asynchronous call that
  has been sent and whose watcher has not fired yet is kept in \<open>pending_calls\<close>; the
  watcher's \<open>finished\<close> signal is the event \<open>onAsyncCallFinished\<close>, which carries the
  position of the call among the pending ones and its reply. Three history fields
  record what happened: \<open>emitted\<close> the signals, \<open>enqueued\<close> every operation passed to
  \<open>queueOperation\<close>, \<open>dequeued\<close> every operation taken from the queue to be executed.
\<close>

datatype variant = VInt int | VString string

text \<open>The field \<open>method\<close> of the source is \<open>method_name\<close> here.\<close>

record QueuedOperation =
  method_name :: string
  args :: "variant list"
  description :: string

datatype async_reply = ReplyError string | ReplyValue int

datatype signal =
    operationInProgressChanged
  | batchCompleted bool "string list"
  | operationFailed string
  | operationSucceeded

record dbus_helper =
  m_connected :: bool
  m_operationInProgress :: bool
  m_batchMode :: bool
  m_operationQueue :: "QueuedOperation list"
  m_batchErrors :: "string list"
  m_batchHadErrors :: bool
  pending_calls :: "QueuedOperation list"
  emitted :: "signal list"
  enqueued :: "QueuedOperation list"
  dequeued :: "QueuedOperation list"

definition new_DbusHelper :: "bool \<Rightarrow> dbus_helper" where
  \<comment> \<open>The constructor; the argument is whether \<open>connectToService\<close> found the service.\<close>
  "new_DbusHelper connected =
     \<lparr>m_connected = connected, m_operationInProgress = False, m_batchMode = False,
      m_operationQueue = [], m_batchErrors = [], m_batchHadErrors = False,
      pending_calls = [], emitted = [], enqueued = [], dequeued = []\<rparr>"

definition setOperationInProgress :: "bool \<Rightarrow> dbus_helper \<Rightarrow> dbus_helper" where
  "setOperationInProgress inProgress st =
     (if m_operationInProgress st \<noteq> inProgress
      then st\<lparr>m_operationInProgress := inProgress,
              emitted := emitted st @ [operationInProgressChanged]\<rparr>
      else st)"

definition record_failure :: "string \<Rightarrow> string \<Rightarrow> dbus_helper \<Rightarrow> dbus_helper" where
  \<comment> \<open>The three statements every failure branch repeats.\<close>
  "record_failure descr error st =
     st\<lparr>m_batchHadErrors := True,
        m_batchErrors := m_batchErrors st @ [descr @ '': '' @ error],
        emitted := emitted st @ [operationFailed error]\<rparr>"

function processNextOperation :: "dbus_helper \<Rightarrow> dbus_helper" where
  "processNextOperation st =
     (case m_operationQueue st of
        [] \<Rightarrow>
          (let st1 = setOperationInProgress False st
           in if m_batchMode st1
              then st1\<lparr>m_batchMode := False,
                       emitted := emitted st1 @
                                    [batchCompleted (\<not> m_batchHadErrors st1) (m_batchErrors st1)],
                       m_batchErrors := [],
                       m_batchHadErrors := False\<rparr>
              else st1)
      | op # rest \<Rightarrow>
          (let st1 = setOperationInProgress True st;
               st2 = st1\<lparr>m_operationQueue := rest, dequeued := dequeued st1 @ [op]\<rparr>
           in if \<not> m_connected st2
              then processNextOperation
                     (record_failure (description op) ''Not connected to D-Bus service'' st2)
              else st2\<lparr>pending_calls := pending_calls st2 @ [op]\<rparr>))"
  by pat_completeness auto
termination
  by (relation "measure (\<lambda>st. length (m_operationQueue st))")
     (auto simp: setOperationInProgress_def record_failure_def)

definition record_reply :: "string \<Rightarrow> async_reply \<Rightarrow> dbus_helper \<Rightarrow> dbus_helper" where
  \<comment> \<open>The branches of \<open>onAsyncCallFinished\<close> on the reply.\<close>
  "record_reply descr reply st =
     (case reply of
        ReplyError error \<Rightarrow> record_failure descr error st
      | ReplyValue result \<Rightarrow>
          if result = 0 then st\<lparr>emitted := emitted st @ [operationSucceeded]\<rparr>
          else record_failure descr (''Operation failed with code '' @ number result) st)"

definition onAsyncCallFinished :: "nat \<Rightarrow> async_reply \<Rightarrow> dbus_helper \<Rightarrow> dbus_helper" where
  \<comment> \<open>Without a pending call at that position there is no watcher to fire.\<close>
  "onAsyncCallFinished i reply st =
     (if length (pending_calls st) \<le> i then st
      else
        (let descr = description (pending_calls st ! i);
             st0 = st\<lparr>pending_calls := take i (pending_calls st) @ drop (Suc i) (pending_calls st)\<rparr>
         in processNextOperation (record_reply descr reply st0)))"

definition queueOperation :: "string \<Rightarrow> variant list \<Rightarrow> string \<Rightarrow> dbus_helper \<Rightarrow> dbus_helper" where
  "queueOperation m a d st =
     (let op = \<lparr>method_name = m, args = a, description = d\<rparr>;
          st1 = st\<lparr>m_operationQueue := m_operationQueue st @ [op], enqueued := enqueued st @ [op]\<rparr>
      in if \<not> m_operationInProgress st1 \<and> \<not> m_batchMode st1 then processNextOperation st1
         else st1)"

definition beginBatch :: "dbus_helper \<Rightarrow> dbus_helper" where
  "beginBatch st = st\<lparr>m_batchMode := True, m_batchErrors := [], m_batchHadErrors := False\<rparr>"

definition endBatch :: "dbus_helper \<Rightarrow> dbus_helper" where
  "endBatch st =
     (if m_operationQueue st = [] \<and> \<not> m_operationInProgress st
      then st\<lparr>m_batchMode := False, emitted := emitted st @ [batchCompleted True []]\<rparr>
      else if \<not> m_operationInProgress st then processNextOperation st
      else st)"

text \<open>The events that reach the scheduler, and a run of them from a state.\<close>

datatype scheduler_event =
    Enqueue QueuedOperation
  | BeginBatch
  | EndBatch
  | Finished nat async_reply

fun scheduler_step :: "dbus_helper \<Rightarrow> scheduler_event \<Rightarrow> dbus_helper" where
  "scheduler_step st (Enqueue op) = queueOperation (method_name op) (args op) (description op) st"
| "scheduler_step st BeginBatch = beginBatch st"
| "scheduler_step st EndBatch = endBatch st"
| "scheduler_step st (Finished i reply) = onAsyncCallFinished i reply st"

definition scheduler_run :: "dbus_helper \<Rightarrow> scheduler_event list \<Rightarrow> dbus_helper" where
  "scheduler_run st events = foldl scheduler_step st events"



fun reply_failed :: "async_reply \<Rightarrow> bool" where
  "reply_failed (ReplyError error) = True"
| "reply_failed (ReplyValue result) = (result \<noteq> 0)"

fun is_batchCompleted :: "signal \<Rightarrow> bool" where
  "is_batchCompleted (batchCompleted allSucceeded errors) = True"
| "is_batchCompleted _ = False"

definition batch_signals :: "dbus_helper \<Rightarrow> signal list" where
  \<comment> \<open>The \<open>batchCompleted\<close> signals emitted so far, in order.\<close>
  "batch_signals st = filter is_batchCompleted (emitted st)"


definition scheduler_invariant :: "dbus_helper \<Rightarrow> bool" where
  "scheduler_invariant st =
     (length (pending_calls st) \<le> 1
      \<and> (pending_calls st = [] \<or> m_operationInProgress st)
      \<and> dequeued st @ m_operationQueue st = enqueued st)"

definition queue_is_driven :: "dbus_helper \<Rightarrow> bool" where
  \<comment> \<open>Queued operations never wait without something that will start them: an open
      batch (its \<open>endBatch\<close>) or an operation in progress (its completion).\<close>
  "queue_is_driven st = (m_batchMode st \<or> m_operationInProgress st \<or> m_operationQueue st = [])"


definition scheduler_idle :: "dbus_helper \<Rightarrow> bool" where
  \<comment> \<open>Nothing is queued, nothing is in progress and no call is in flight.\<close>
  "scheduler_idle st =
     (m_operationQueue st = [] \<and> \<not> m_operationInProgress st \<and> pending_calls st = [])"


section \<open>The per-CPU settings controller\<close>

text \<open>
  \<open>CpuSettings\<close>. What \<open>SysfsReader\<close> returns for the controller's CPU is the record
  \<open>system_view\<close>; the synchronous calls of \<open>DbusHelper\<close> answer with a result code and
  may change that view, so they are functions on it. The \<open>Q_EMIT\<close> notifications
  carry no data and are left out.
\<close>

record system_view =
  scalingFreqs :: "int \<times> int"
  currentGovernor :: string
  currentEnergyPref :: string
  sys_isOnline :: bool
  availableGovernors :: "string list"

record dbus_sync =
  setCpuOnline :: "int \<Rightarrow> system_view \<Rightarrow> int \<times> system_view"
  setCpuOffline :: "int \<Rightarrow> system_view \<Rightarrow> int \<times> system_view"
  updateCpuSettings :: "int \<Rightarrow> int \<Rightarrow> int \<Rightarrow> system_view \<Rightarrow> int \<times> system_view"
  updateCpuGovernor :: "int \<Rightarrow> string \<Rightarrow> system_view \<Rightarrow> int \<times> system_view"
  updateCpuEnergyPrefs :: "int \<Rightarrow> string \<Rightarrow> system_view \<Rightarrow> int \<times> system_view"

record CpuSettings =
  m_cpu :: int
  m_governors :: "string list"
  m_energyPrefs :: "string list"
  m_energyPrefAvailable :: bool
  m_canGoOffline :: bool
  m_origFreqMin :: int
  m_origFreqMax :: int
  m_origGovernor :: string
  m_origEnergyPref :: string
  m_origOnline :: bool
  m_newFreqMin :: int
  m_newFreqMax :: int
  m_newGovernor :: string
  m_newEnergyPref :: string
  m_newOnline :: bool

definition updateFromSystem :: "system_view \<Rightarrow> CpuSettings \<Rightarrow> CpuSettings" where
  "updateFromSystem sys s =
     (let s1 = s\<lparr>m_origFreqMin := fst (scalingFreqs sys),
                  m_origFreqMax := snd (scalingFreqs sys),
                  m_origGovernor := currentGovernor sys,
                  m_origEnergyPref := currentEnergyPref sys,
                  m_origOnline := sys_isOnline sys\<rparr>;
          s2 = s1\<lparr>m_newFreqMin := m_origFreqMin s1,
                   m_newFreqMax := m_origFreqMax s1,
                   m_newGovernor := m_origGovernor s1,
                   m_newEnergyPref := m_origEnergyPref s1,
                   m_newOnline := m_origOnline s1\<rparr>
      in s2\<lparr>m_governors := availableGovernors sys\<rparr>)"

definition resetToSystem :: "CpuSettings \<Rightarrow> CpuSettings" where
  "resetToSystem s =
     s\<lparr>m_newFreqMin := m_origFreqMin s,
       m_newFreqMax := m_origFreqMax s,
       m_newGovernor := m_origGovernor s,
       m_newEnergyPref := m_origEnergyPref s,
       m_newOnline := m_origOnline s\<rparr>"

definition isFreqChanged :: "CpuSettings \<Rightarrow> bool" where
  "isFreqChanged s = (m_newFreqMin s \<noteq> m_origFreqMin s \<or> m_newFreqMax s \<noteq> m_origFreqMax s)"

definition isGovernorChanged :: "CpuSettings \<Rightarrow> bool" where
  "isGovernorChanged s = (m_newGovernor s \<noteq> m_origGovernor s)"

definition isEnergyPrefChanged :: "CpuSettings \<Rightarrow> bool" where
  "isEnergyPrefChanged s = (m_newEnergyPref s \<noteq> m_origEnergyPref s)"

definition isOnlineChanged :: "CpuSettings \<Rightarrow> bool" where
  "isOnlineChanged s = (m_newOnline s \<noteq> m_origOnline s)"

definition isChanged :: "CpuSettings \<Rightarrow> bool" where
  "isChanged s = (isFreqChanged s \<or> isGovernorChanged s \<or> isEnergyPrefChanged s \<or> isOnlineChanged s)"

definition applyChanges ::
  "dbus_sync \<Rightarrow> CpuSettings \<Rightarrow> system_view \<Rightarrow> int \<times> CpuSettings \<times> system_view" where
  "applyChanges dbus s sys =
     (let (ret1, sys1) =
            (if isOnlineChanged s
             then (if m_newOnline s then setCpuOnline dbus (m_cpu s) sys
                   else if m_canGoOffline s then setCpuOffline dbus (m_cpu s) sys
                   else (0, sys))
             else (0, sys))
      in if isOnlineChanged s \<and> ret1 \<noteq> 0 then (ret1, s, sys1)
         else if \<not> m_newOnline s then (0, updateFromSystem sys1 s, sys1)
         else
           (let (ret2, sys2) =
                  (if isFreqChanged s
                   then updateCpuSettings dbus (m_cpu s) (m_newFreqMin s) (m_newFreqMax s) sys1
                   else (0, sys1))
            in if isFreqChanged s \<and> ret2 \<noteq> 0 then (- 13, s, sys2)
               else
                 (let (ret3, sys3) =
                        (if isGovernorChanged s
                         then updateCpuGovernor dbus (m_cpu s) (m_newGovernor s) sys2
                         else (0, sys2))
                  in if isGovernorChanged s \<and> ret3 \<noteq> 0 then (- 11, s, sys3)
                     else
                       (let (ret4, sys4) =
                              (if isEnergyPrefChanged s \<and> m_energyPrefAvailable s
                               then updateCpuEnergyPrefs dbus (m_cpu s) (m_newEnergyPref s) sys3
                               else (0, sys3))
                        in if isEnergyPrefChanged s \<and> m_energyPrefAvailable s \<and> ret4 \<noteq> 0
                           then (- 12, s, sys4)
                           else (0, updateFromSystem sys4 s, sys4)))))"

section \<open>Vocabulary of the properties, and example inputs\<close>

definition gate_passed :: "call_env \<Rightarrow> helper_state \<Rightarrow> bool" where
  \<comment> \<open>What \<open>isAuthorized()\<close> answers at the start of a mutation.\<close>
  "gate_passed env st = fst (isAuthorized env apply_runtime (resetIdleTimer st))"

definition state_after_gate :: "call_env \<Rightarrow> helper_state \<Rightarrow> helper_state" where
  \<comment> \<open>The state a mutation continues in once \<open>isAuthorized()\<close> has answered.\<close>
  "state_after_gate env st = snd (isAuthorized env apply_runtime (resetIdleTimer st))"

definition same_kernel_files :: "helper_state \<Rightarrow> helper_state \<Rightarrow> bool" where
  \<comment> \<open>No control file differs and \<open>writeSysfsFile\<close> was not called in between.\<close>
  "same_kernel_files st st' = (files st' = files st \<and> write_attempts st' = write_attempts st)"

definition minFreqPath :: "int \<Rightarrow> string" where
  "minFreqPath cpu = filePath (cpufreqPath cpu) SCALING_MIN_FREQ"

definition maxFreqPath :: "int \<Rightarrow> string" where
  "maxFreqPath cpu = filePath (cpufreqPath cpu) SCALING_MAX_FREQ"

definition claimed_write_order :: "int \<Rightarrow> int \<Rightarrow> int \<Rightarrow> int \<Rightarrow> int \<Rightarrow> (string \<times> string) list" where
  \<comment> \<open>The order of the two writes in the specification's words.\<close>
  "claimed_write_order cpu cur_min cur_max new_min new_max =
     (if new_max < cur_min
      then [(minFreqPath cpu, number new_min), (maxFreqPath cpu, number new_max)]
      else if new_min > cur_max
      then [(maxFreqPath cpu, number new_max), (minFreqPath cpu, number new_min)]
      else [(minFreqPath cpu, number new_min), (maxFreqPath cpu, number new_max)])"

definition claimed_part_cpus :: "string \<Rightarrow> int list" where
  \<comment> \<open>What one comma-separated part contributes, in the words of the claim: a part
      with a dash gives the range between its two pieces, and nothing when it does not
      have exactly two; any other part gives its one number.\<close>
  "claimed_part_cpus part =
     (if contains CHR ''-'' part
      then (if length (split CHR ''-'' part) = 2
            then [toInt (split CHR ''-'' part ! 0) .. toInt (split CHR ''-'' part ! 1)]
            else [])
      else [toInt part])"

definition ends_at_INT_MAX :: "string \<Rightarrow> bool" where
  \<comment> \<open>The part is a dash range whose end is the largest \<open>int\<close>.\<close>
  "ends_at_INT_MAX part =
     (contains CHR ''-'' part \<and> length (split CHR ''-'' part) = 2
      \<and> toInt (split CHR ''-'' part ! 1) = INT_MAX)"

definition example_files :: "string \<rightharpoonup> string" where
  "example_files =
     [''/sys/devices/system/cpu/present'' \<mapsto> ''0-3\<newline>'',
      ''/sys/devices/system/cpu/online'' \<mapsto> ''0-3\<newline>'',
      ''/sys/devices/system/cpu/cpu2/online'' \<mapsto> ''1\<newline>'',
      ''/sys/devices/system/cpu/cpu2/cpufreq/scaling_min_freq'' \<mapsto> ''800000\<newline>'',
      ''/sys/devices/system/cpu/cpu2/cpufreq/scaling_max_freq'' \<mapsto> ''2000000\<newline>'',
      ''/sys/devices/system/cpu/cpu3/cpufreq/energy_performance_available_preferences'' \<mapsto>
        ''default performance balance_performance balance_power power \<newline>'',
      ''/sys/devices/system/cpu/cpu3/cpufreq/energy_performance_preference'' \<mapsto>
        ''balance_performance\<newline>'']"

definition example_state :: helper_state where
  "example_state =
     \<lparr>m_authorizedSenders = Map.empty, m_idleTimeoutSecs = 60, idle_timer = None,
      files = example_files, writable = (\<lambda>path. True), write_attempts = [],
      polkit_calls = []\<rparr>"

definition example_min_unwritable :: helper_state where
  \<comment> \<open>As \<open>example_state\<close>, but \<open>scaling_min_freq\<close> of CPU 2 cannot be opened for writing.\<close>
  "example_min_unwritable = example_state\<lparr>writable := (\<lambda>path. path \<noteq> minFreqPath 2)\<rparr>"

definition example_max_unwritable :: helper_state where
  \<comment> \<open>As \<open>example_state\<close>, but \<open>scaling_max_freq\<close> of CPU 2 cannot be opened for writing.\<close>
  "example_max_unwritable = example_state\<lparr>writable := (\<lambda>path. path \<noteq> maxFreqPath 2)\<rparr>"

definition example_granted :: call_env where
  "example_granted =
     \<lparr>calledFromDBus = True, message_service = '':1.42'',
      authority_reply = MethodReturn [AuthorizationResult True False []]\<rparr>"

definition example_denied :: call_env where
  "example_denied =
     \<lparr>calledFromDBus = True, message_service = '':1.42'',
      authority_reply = MethodReturn [AuthorizationResult False False []]\<rparr>"

definition example_failed :: call_env where
  "example_failed =
     \<lparr>calledFromDBus = True, message_service = '':1.42'',
      authority_reply = ErrorMessage ''org.freedesktop.DBus.Error.NoReply''\<rparr>"

definition later_state :: "(polkit_reply \<times> string \<times> string) list \<Rightarrow> helper_state \<Rightarrow> helper_state" where
  \<comment> \<open>The state after further authorization checks, each with its own reply, sender
      and action.\<close>
  "later_state calls st =
     foldl (\<lambda>s (reply, sender, actionId). snd (checkPolkitAuthorization reply sender actionId s))
       st calls"

definition example_system :: system_view where
  "example_system =
     \<lparr>scalingFreqs = (800000, 2000000), currentGovernor = ''powersave'',
      currentEnergyPref = ''balance_performance'', sys_isOnline = True,
      availableGovernors = [''performance'', ''powersave'']\<rparr>"

definition example_dbus :: dbus_sync where
  \<comment> \<open>A helper that applies everything it is asked to, except that writing the
      governor fails.\<close>
  "example_dbus =
     \<lparr>setCpuOnline = (\<lambda>cpu sys. (0, sys\<lparr>sys_isOnline := True\<rparr>)),
      setCpuOffline = (\<lambda>cpu sys. (0, sys\<lparr>sys_isOnline := False\<rparr>)),
      updateCpuSettings = (\<lambda>cpu fmin fmax sys. (0, sys\<lparr>scalingFreqs := (fmin, fmax)\<rparr>)),
      updateCpuGovernor = (\<lambda>cpu governor sys. (- 13, sys)),
      updateCpuEnergyPrefs = (\<lambda>cpu pref sys. (0, sys\<lparr>currentEnergyPref := pref\<rparr>))\<rparr>"

definition example_settings :: CpuSettings where
  \<comment> \<open>CPU 2 as loaded from \<open>example_system\<close>, then edited: a higher minimum
      frequency and another governor.\<close>
  "example_settings =
     \<lparr>m_cpu = 2, m_governors = [''performance'', ''powersave''],
      m_energyPrefs = [''balance_performance'', ''power''], m_energyPrefAvailable = True,
      m_canGoOffline = True,
      m_origFreqMin = 800000, m_origFreqMax = 2000000, m_origGovernor = ''powersave'',
      m_origEnergyPref = ''balance_performance'', m_origOnline = True,
      m_newFreqMin = 1000000, m_newFreqMax = 2000000, m_newGovernor = ''performance'',
      m_newEnergyPref = ''balance_performance'', m_newOnline = True\<rparr>"


declare digits.simps [simp del]
declare parseCpuList_range.simps [simp del]
declare processNextOperation.simps [simp del]

section \<open>Decimal numbers: \<open>toInt\<close> reads back what \<open>number\<close> prints\<close>

lemma digits_nonempty: "digits n \<noteq> []"
  by (subst digits.simps) simp

lemma digit_char:
  assumes "0 \<le> k" and "k < 10"
  shows "isDigit (char_of (48 + k :: int))" and "digitValue (char_of (48 + k :: int)) = k"
proof -
  have "(48 + k) mod 256 = 48 + k" using assms by simp
  then have "(of_char (char_of (48 + k)) :: int) = 48 + k" by (simp only: of_char_of)
  with assms show "isDigit (char_of (48 + k :: int))" and "digitValue (char_of (48 + k :: int)) = k"
    by (simp_all add: isDigit_def digitValue_def)
qed

lemma digits_all_digit: "0 \<le> n \<Longrightarrow> list_all isDigit (digits n)"
proof (induction n rule: digits.induct)
  case (1 n)
  show ?case
  proof (cases "n < 10")
    case True
    with 1(2) show ?thesis by (subst digits.simps) (simp add: digit_char)
  next
    case False
    have "isDigit (char_of (48 + n mod 10))" by (rule digit_char) simp_all
    with False 1 show ?thesis by (subst digits.simps) simp
  qed
qed

lemma digits_value: "0 \<le> n \<Longrightarrow> foldl (\<lambda>a c. a * 10 + digitValue c) 0 (digits n) = n"
proof (induction n rule: digits.induct)
  case (1 n)
  show ?case
  proof (cases "n < 10")
    case True
    with 1(2) show ?thesis by (subst digits.simps) (simp add: digit_char)
  next
    case False
    have "digitValue (char_of (48 + n mod 10)) = n mod 10" by (rule digit_char) simp_all
    with False 1 show ?thesis by (subst digits.simps) simp
  qed
qed

lemma digit_not_space: "isDigit c \<Longrightarrow> \<not> isSpace c"
  by (auto simp: isDigit_def isSpace_def Let_def)

lemma trimmed_id: "s \<noteq> [] \<Longrightarrow> \<not> isSpace (hd s) \<Longrightarrow> \<not> isSpace (last s) \<Longrightarrow> trimmed s = s"
proof -
  assume a: "s \<noteq> []" "\<not> isSpace (hd s)" "\<not> isSpace (last s)"
  then have 1: "dropWhile isSpace s = s" by (cases s) auto
  from a have "rev s \<noteq> []" "\<not> isSpace (hd (rev s))" by (auto simp: hd_rev)
  then have "dropWhile isSpace (rev s) = rev s" by (cases "rev s") auto
  with 1 show ?thesis by (simp add: trimmed_def)
qed

lemma digits_hd_last:
  assumes "0 \<le> n"
  shows "isDigit (hd (digits n)) \<and> isDigit (last (digits n))"
proof -
  have "list_all isDigit (digits n)" using assms by (rule digits_all_digit)
  moreover have "digits n \<noteq> []" by (rule digits_nonempty)
  ultimately show ?thesis by (simp add: list_all_iff)
qed

lemma digit_not_sign: "isDigit c \<Longrightarrow> c \<noteq> CHR ''-'' \<and> c \<noteq> CHR ''+''"
  by (auto simp: isDigit_def)

lemma trimmed_number: "trimmed (number n) = number n"
proof (cases "n < 0")
  case True
  have "\<not> isSpace CHR ''-''" by (simp add: isSpace_def)
  moreover have "last (CHR ''-'' # digits (- n)) = last (digits (- n))"
    by (simp add: digits_nonempty)
  ultimately show ?thesis using True digits_hd_last[of "- n"]
    by (simp add: number_def trimmed_id digit_not_space)
next
  case False
  then show ?thesis using digits_hd_last[of n] digits_nonempty[of n]
    by (simp add: number_def trimmed_id digit_not_space)
qed

lemma toInt_number: "is_int n \<Longrightarrow> toInt (number n) = n"
proof (cases "n < 0")
  case True
  assume r: "is_int n"
  have t: "trimmed (number n) = CHR ''-'' # digits (- n)"
    using True trimmed_number[of n] by (simp add: number_def)
  show ?thesis
    using True r digits_nonempty[of "- n"] digits_all_digit[of "- n"] digits_value[of "- n"]
    by (simp add: toInt_def t Let_def)
next
  case False
  assume r: "is_int n"
  have t: "trimmed (number n) = digits n"
    using False trimmed_number[of n] by (simp add: number_def)
  show ?thesis
    using False r digits_nonempty[of n] digits_all_digit[of n] digits_value[of n]
      digits_hd_last[of n] digit_not_sign[of "hd (digits n)"]
    by (simp add: toInt_def t Let_def)
qed

lemma toInt_trimmed_number: "is_int n \<Longrightarrow> toInt (trimmed (number n)) = n"
  by (simp add: trimmed_number toInt_number)

section \<open>Properties of the range-list parser\<close>

lemma parseCpuList_range_overflow:
  "start \<le> INT_MAX \<Longrightarrow> parseCpuList_range start INT_MAX result = None"
proof (induction start INT_MAX result rule: parseCpuList_range.induct)
  case (1 i result)
  then show ?case by (subst parseCpuList_range.simps) simp
qed

lemma parseCpuList_range_upto:
  "end < INT_MAX \<Longrightarrow> parseCpuList_range start end result = Some (result @ [start..end])"
proof (induction start "end" result rule: parseCpuList_range.induct)
  case (1 i e result)
  show ?case
  proof (cases "i \<le> e")
    case True
    with 1 have "parseCpuList_range (i + 1) e (result @ [i]) = Some ((result @ [i]) @ [i + 1..e])"
      by simp
    with True 1(2) show ?thesis
      by (subst parseCpuList_range.simps) (simp add: upto_rec1)
  next
    case False
    then show ?thesis by (subst parseCpuList_range.simps) simp
  qed
qed

lemma toInt_le_INT_MAX: "toInt s \<le> INT_MAX"
  by (simp add: toInt_def Let_def is_int_def INT_MAX_def)

lemma dropWhile_keeps: "x \<in> set xs \<Longrightarrow> \<not> P x \<Longrightarrow> x \<in> set (dropWhile P xs)"
  by (induction xs) auto

lemma trimmed_keeps: "c \<in> set s \<Longrightarrow> \<not> isSpace c \<Longrightarrow> c \<in> set (trimmed s)"
proof -
  assume c: "c \<in> set s" "\<not> isSpace c"
  then have "c \<in> set (dropWhile isSpace s)" by (rule dropWhile_keeps)
  then have "c \<in> set (rev (dropWhile isSpace s))" by simp
  then have "c \<in> set (dropWhile isSpace (rev (dropWhile isSpace s)))"
    using c(2) by (rule dropWhile_keeps)
  then show ?thesis by (simp add: trimmed_def)
qed

lemma toInt_not_a_number:
  assumes "c \<in> set s" and "\<not> isSpace c" and "\<not> isDigit c"
      and "c \<noteq> CHR ''-''" and "c \<noteq> CHR ''+''"
  shows "toInt s = 0"
proof -
  define t where "t = trimmed s"
  define ds where "ds = (if t \<noteq> [] \<and> (hd t = CHR ''-'' \<or> hd t = CHR ''+'') then tl t else t)"
  have "c \<in> set t" unfolding t_def using assms(1,2) by (rule trimmed_keeps)
  then have "c \<in> set ds"
    using assms(4,5) unfolding ds_def by (cases t) auto
  then have "\<not> list_all isDigit ds" using assms(3) by (auto simp: list_all_iff)
  then show ?thesis by (simp add: toInt_def Let_def t_def[symmetric] ds_def[symmetric])
qed

lemma parseCpuList_part_not_two_pieces:
  "contains CHR ''-'' part \<Longrightarrow> length (split CHR ''-'' part) \<noteq> 2 \<Longrightarrow>
   parseCpuList_part part result = Some result"
  by (simp add: parseCpuList_part_def Let_def)

lemma parseCpuList_part_descending:
  "contains CHR ''-'' part \<Longrightarrow> length (split CHR ''-'' part) = 2 \<Longrightarrow>
   toInt (split CHR ''-'' part ! 1) < toInt (split CHR ''-'' part ! 0) \<Longrightarrow>
   parseCpuList_part part result = Some result"
  by (simp add: parseCpuList_part_def Let_def parseCpuList_range.simps)

lemma parseCpuList_part_single:
  "\<not> contains CHR ''-'' part \<Longrightarrow> parseCpuList_part part result = Some (result @ [toInt part])"
  by (simp add: parseCpuList_part_def)

lemma split_SkipEmptyParts_no_empty: "[] \<notin> set (split_SkipEmptyParts sep s)"
  by (simp add: split_SkipEmptyParts_def)

lemma parseCpuList_part_total:
  assumes "\<not> (contains CHR ''-'' part \<and> length (split CHR ''-'' part) = 2
              \<and> toInt (split CHR ''-'' part ! 1) = INT_MAX)"
  shows "\<exists>cpus. parseCpuList_part part result = Some cpus"
proof (cases "contains CHR ''-'' part \<and> length (split CHR ''-'' part) = 2")
  case True
  with assms have "toInt (split CHR ''-'' part ! 1) < INT_MAX"
    using toInt_le_INT_MAX[of "split CHR ''-'' part ! 1"] by simp
  then show ?thesis using True
    by (simp add: parseCpuList_part_def Let_def parseCpuList_range_upto)
next
  case False
  then show ?thesis by (auto simp: parseCpuList_part_def Let_def)
qed

lemma parseCpuList_parts_total:
  assumes "\<forall>part \<in> set parts.
             \<not> (contains CHR ''-'' part \<and> length (split CHR ''-'' part) = 2
                \<and> toInt (split CHR ''-'' part ! 1) = INT_MAX)"
  shows "\<exists>cpus. parseCpuList_parts parts result = Some cpus"
  using assms
proof (induction parts arbitrary: result)
  case Nil
  then show ?case by simp
next
  case (Cons part parts)
  then obtain r where r: "parseCpuList_part part result = Some r"
    using parseCpuList_part_total[of part result] by auto
  from Cons obtain cpus where "parseCpuList_parts parts r = Some cpus" by fastforce
  with r show ?case by simp
qed

lemma parseCpuList_total:
  assumes "\<forall>part \<in> set (split_SkipEmptyParts CHR '','' (trimmed content)).
             \<not> (contains CHR ''-'' part \<and> length (split CHR ''-'' part) = 2
                \<and> toInt (split CHR ''-'' part ! 1) = INT_MAX)"
  shows "\<exists>cpus. parseCpuList content = Some cpus"
  using parseCpuList_parts_total[OF assms, of "[]"]
  by (auto simp: parseCpuList_def Let_def)

lemma parseCpuList_example: "parseCpuList ''0-3,5,7-9'' = Some [0, 1, 2, 3, 5, 7, 8, 9]"
  by code_simp

lemma parseCpuList_empty: "parseCpuList '''' = Some []"
  by code_simp

lemma parseCpuList_part_claimed:
  "\<not> ends_at_INT_MAX part \<Longrightarrow>
   parseCpuList_part part result = Some (result @ claimed_part_cpus part)"
proof (cases "contains CHR ''-'' part \<and> length (split CHR ''-'' part) = 2")
  case True
  assume "\<not> ends_at_INT_MAX part"
  with True have "toInt (split CHR ''-'' part ! 1) < INT_MAX"
    using toInt_le_INT_MAX[of "split CHR ''-'' part ! 1"] by (simp add: ends_at_INT_MAX_def)
  then show ?thesis using True
    by (simp add: parseCpuList_part_def claimed_part_cpus_def Let_def parseCpuList_range_upto)
next
  case False
  then show ?thesis by (auto simp: parseCpuList_part_def claimed_part_cpus_def Let_def)
qed

lemma parseCpuList_part_overflow:
  "ends_at_INT_MAX part \<Longrightarrow> parseCpuList_part part result = None"
  using toInt_le_INT_MAX[of "split CHR ''-'' part ! 0"]
  by (simp add: ends_at_INT_MAX_def parseCpuList_part_def Let_def parseCpuList_range_overflow)

lemma parseCpuList_parts_claimed:
  "\<forall>part \<in> set parts. \<not> ends_at_INT_MAX part \<Longrightarrow>
   parseCpuList_parts parts result = Some (result @ concat (map claimed_part_cpus parts))"
proof (induction parts arbitrary: result)
  case Nil
  then show ?case by simp
next
  case (Cons part parts)
  then have "parseCpuList_part part result = Some (result @ claimed_part_cpus part)"
    by (simp add: parseCpuList_part_claimed)
  moreover have "parseCpuList_parts parts (result @ claimed_part_cpus part)
                 = Some ((result @ claimed_part_cpus part) @ concat (map claimed_part_cpus parts))"
    using Cons.prems by (intro Cons.IH) simp
  ultimately show ?case by simp
qed

lemma parseCpuList_parts_overflow:
  "\<exists>part \<in> set parts. ends_at_INT_MAX part \<Longrightarrow> parseCpuList_parts parts result = None"
proof (induction parts arbitrary: result)
  case Nil
  then show ?case by simp
next
  case (Cons part parts)
  show ?case
  proof (cases "ends_at_INT_MAX part")
    case True
    then show ?thesis by (simp add: parseCpuList_part_overflow)
  next
    case False
    with Cons.prems have "\<exists>p \<in> set parts. ends_at_INT_MAX p" by simp
    then have "\<And>r. parseCpuList_parts parts r = None" by (rule Cons.IH)
    then show ?thesis by (simp split: option.splits)
  qed
qed

lemma split_SkipEmptyParts_empty: "split_SkipEmptyParts sep [] = []"
  by (simp add: split_SkipEmptyParts_def split_def)

lemma parseCpuList_fails_exactly:
  "(parseCpuList content = None)
   = (\<exists>part \<in> set (split_SkipEmptyParts CHR '','' (trimmed content)). ends_at_INT_MAX part)"
proof (cases "\<exists>part \<in> set (split_SkipEmptyParts CHR '','' (trimmed content)). ends_at_INT_MAX part")
  case True
  then have "trimmed content \<noteq> []" by (auto simp: split_SkipEmptyParts_empty)
  with True show ?thesis
    using parseCpuList_parts_overflow[OF True, of "[]"] by (simp add: parseCpuList_def Let_def)
next
  case False
  then have "\<forall>part \<in> set (split_SkipEmptyParts CHR '','' (trimmed content)). \<not> ends_at_INT_MAX part"
    by simp
  from parseCpuList_parts_claimed[OF this, of "[]"] False show ?thesis
    by (simp add: parseCpuList_def Let_def)
qed

text \<open>
  Claim C10, as amended. For every input string in which no comma-separated part is a
  dash range of two pieces whose end is \<open>INT_MAX\<close>, \<open>parseCpuList\<close> returns a list:
  the contributions of the parts that are not empty, in order. A part that contains a
  dash but does not split into exactly two pieces contributes nothing, a dash range
  whose start exceeds its end contributes nothing, and a single part with a character
  that no number has contributes 0.
\<close>

theorem parseCpuList_returns_claimed_list:
  assumes "\<forall>part \<in> set (split_SkipEmptyParts CHR '','' (trimmed content)). \<not> ends_at_INT_MAX part"
  shows "parseCpuList content
         = Some (concat (map claimed_part_cpus (split_SkipEmptyParts CHR '','' (trimmed content))))
       \<and> [] \<notin> set (split_SkipEmptyParts CHR '','' (trimmed content))
       \<and> (contains CHR ''-'' p1 \<and> length (split CHR ''-'' p1) \<noteq> 2 \<longrightarrow> claimed_part_cpus p1 = [])
       \<and> (contains CHR ''-'' p2 \<and> length (split CHR ''-'' p2) = 2
            \<and> toInt (split CHR ''-'' p2 ! 1) < toInt (split CHR ''-'' p2 ! 0)
          \<longrightarrow> claimed_part_cpus p2 = [])
       \<and> (\<not> contains CHR ''-'' p3 \<and> c \<in> set p3 \<and> \<not> isSpace c \<and> \<not> isDigit c \<and> c \<noteq> CHR ''+''
          \<longrightarrow> claimed_part_cpus p3 = [0])"
proof -
  have "parseCpuList content
        = Some (concat (map claimed_part_cpus (split_SkipEmptyParts CHR '','' (trimmed content))))"
  proof (cases "trimmed content = []")
    case True
    then show ?thesis by (simp add: parseCpuList_def split_SkipEmptyParts_empty)
  next
    case False
    with parseCpuList_parts_claimed[OF assms, of "[]"] show ?thesis
      by (simp add: parseCpuList_def Let_def)
  qed
  moreover have "\<not> contains CHR ''-'' p3 \<and> c \<in> set p3 \<and> \<not> isSpace c \<and> \<not> isDigit c \<and> c \<noteq> CHR ''+''
          \<longrightarrow> claimed_part_cpus p3 = [0]"
  proof
    assume a: "\<not> contains CHR ''-'' p3 \<and> c \<in> set p3 \<and> \<not> isSpace c \<and> \<not> isDigit c \<and> c \<noteq> CHR ''+''"
    then have "c \<noteq> CHR ''-''" by (auto simp: contains_def)
    with a have "toInt p3 = 0" by (intro toInt_not_a_number[of c]) simp_all
    with a show "claimed_part_cpus p3 = [0]" by (simp add: claimed_part_cpus_def)
  qed
  ultimately show ?thesis
    by (simp add: split_SkipEmptyParts_no_empty claimed_part_cpus_def)
qed

theorem parseCpuList_returns_claimed_list_witness:
  "parseCpuList ''0-3,,5,x,3-1,1-2-3,7-9'' = Some [0, 1, 2, 3, 5, 0, 7, 8, 9]
   \<and> claimed_part_cpus ''1-2-3'' = []
   \<and> claimed_part_cpus ''3-1'' = []
   \<and> claimed_part_cpus ''x'' = [0]"
proof -
  have h: "\<forall>part \<in> set (split_SkipEmptyParts CHR '','' (trimmed ''0-3,,5,x,3-1,1-2-3,7-9'')).
             \<not> ends_at_INT_MAX part"
    by code_simp
  have v: "concat (map claimed_part_cpus
                     (split_SkipEmptyParts CHR '','' (trimmed ''0-3,,5,x,3-1,1-2-3,7-9'')))
           = [0, 1, 2, 3, 5, 0, 7, 8, 9]"
    by code_simp
  have p1: "contains CHR ''-'' ''1-2-3'' \<and> length (split CHR ''-'' ''1-2-3'') \<noteq> 2" by code_simp
  have p2: "contains CHR ''-'' ''3-1'' \<and> length (split CHR ''-'' ''3-1'') = 2
            \<and> toInt (split CHR ''-'' ''3-1'' ! 1) < toInt (split CHR ''-'' ''3-1'' ! 0)"
    by code_simp
  have p3: "\<not> contains CHR ''-'' ''x'' \<and> CHR ''x'' \<in> set ''x'' \<and> \<not> isSpace CHR ''x''
            \<and> \<not> isDigit CHR ''x'' \<and> CHR ''x'' \<noteq> CHR ''+''"
    by code_simp
  from parseCpuList_returns_claimed_list[OF h, of "''1-2-3''" "''3-1''" "''x''" "CHR ''x''"]
  show ?thesis using v p1 p2 p3 by simp
qed

text \<open>
  Claim C10 as stated, for every input string, does not hold: a dash range that ends
  at \<open>INT_MAX\<close> makes the loop counter overflow, and no list is returned.
\<close>

theorem parseCpuList_range_to_INT_MAX:
  "parseCpuList ''2147483647-2147483647'' = None"
  by code_simp

section \<open>Properties of the authorization gate\<close>

lemma checkPolkit_hit:
  "m_authorizedSenders st (sender @ actionId) = Some b \<Longrightarrow>
   checkPolkitAuthorization reply sender actionId st = (b, st)"
  by (simp add: checkPolkitAuthorization_def)

lemma checkPolkit_cache_cases:
  "m_authorizedSenders (snd (checkPolkitAuthorization reply sender actionId st)) = m_authorizedSenders st
   \<or> (m_authorizedSenders st (sender @ actionId) = None
      \<and> (\<exists>details rest. reply = MethodReturn (AuthorizationResult True False details # rest))
      \<and> m_authorizedSenders (snd (checkPolkitAuthorization reply sender actionId st))
          = (m_authorizedSenders st)(sender @ actionId \<mapsto> True))"
proof (cases "m_authorizedSenders st (sender @ actionId)")
  case (Some b)
  then show ?thesis by (simp add: checkPolkit_hit)
next
  case None
  show ?thesis
  proof (cases reply)
    case (ErrorMessage e)
    with None show ?thesis by (simp add: checkPolkitAuthorization_def)
  next
    case (MethodReturn arguments)
    show ?thesis
    proof (cases arguments)
      case Nil
      with None MethodReturn show ?thesis by (simp add: checkPolkitAuthorization_def)
    next
      case (Cons v rest)
      with None MethodReturn show ?thesis
        by (cases v) (auto simp: checkPolkitAuthorization_def Let_def)
    qed
  qed
qed

lemma checkPolkit_persist:
  "m_authorizedSenders st k = Some b \<Longrightarrow>
   m_authorizedSenders (snd (checkPolkitAuthorization reply sender actionId st)) k = Some b"
  using checkPolkit_cache_cases[of reply sender actionId st]
  by (auto simp: fun_upd_def split: if_splits)

lemma later_state_persist:
  "m_authorizedSenders st k = Some b \<Longrightarrow> m_authorizedSenders (later_state calls st) k = Some b"
proof (induction calls arbitrary: st)
  case Nil
  then show ?case by (simp add: later_state_def)
next
  case (Cons c calls)
  obtain reply sender actionId where c: "c = (reply, sender, actionId)" by (cases c) auto
  have "later_state (c # calls) st
        = later_state calls (snd (checkPolkitAuthorization reply sender actionId st))"
    by (simp add: later_state_def c)
  with Cons show ?case by (simp add: checkPolkit_persist)
qed

text \<open>
  Claim C2. A call of \<open>checkPolkitAuthorization\<close> changes the cache only when the
  authority's reply says authorized and not challenge; and once a decision for the
  caller and action is cached, every later call for them, after any further checks
  and whatever the authority would reply, returns the cached boolean and leaves the
  state as it is, so no call is sent to the authority.
\<close>

theorem checkPolkitAuthorization_caching:
  "(m_authorizedSenders (snd (checkPolkitAuthorization reply sender actionId st))
      \<noteq> m_authorizedSenders st
    \<longrightarrow> (\<exists>details rest. reply = MethodReturn (AuthorizationResult True False details # rest)))
   \<and> (m_authorizedSenders st (sender @ actionId) = Some cached
    \<longrightarrow> checkPolkitAuthorization reply' sender actionId (later_state calls st)
          = (cached, later_state calls st))"
  using checkPolkit_cache_cases[of reply sender actionId st]
  by (auto simp: later_state_persist checkPolkit_hit)

theorem checkPolkitAuthorization_caching_witness:
  "m_authorizedSenders
     (snd (checkPolkitAuthorization (authority_reply example_granted) '':1.42'' apply_runtime
             example_state))
   \<noteq> m_authorizedSenders example_state
   \<and> (\<exists>details rest. authority_reply example_granted
                       = MethodReturn (AuthorizationResult True False details # rest))
   \<and> m_authorizedSenders
       (snd (checkPolkitAuthorization (authority_reply example_granted) '':1.42'' apply_runtime
               example_state)) ('':1.42'' @ apply_runtime) = Some True
   \<and> fst (checkPolkitAuthorization (authority_reply example_failed) '':1.42'' apply_runtime
       (later_state [(authority_reply example_denied, '':1.7'', apply_runtime)]
        (snd (checkPolkitAuthorization (authority_reply example_granted) '':1.42'' apply_runtime
               example_state))))"
proof -
  let ?st1 = "snd (checkPolkitAuthorization (authority_reply example_granted) '':1.42''
                     apply_runtime example_state)"
  have cached: "m_authorizedSenders ?st1 ('':1.42'' @ apply_runtime) = Some True"
    by (simp add: checkPolkitAuthorization_def example_granted_def example_state_def)
  have changed: "m_authorizedSenders ?st1 \<noteq> m_authorizedSenders example_state"
  proof
    assume "m_authorizedSenders ?st1 = m_authorizedSenders example_state"
    then have "m_authorizedSenders ?st1 ('':1.42'' @ apply_runtime)
               = m_authorizedSenders example_state ('':1.42'' @ apply_runtime)" by simp
    with cached show False by (simp add: example_state_def)
  qed
  from checkPolkitAuthorization_caching
         [of "authority_reply example_granted" "'':1.42''" apply_runtime example_state]
       changed
  have r: "\<exists>details rest. authority_reply example_granted
             = MethodReturn (AuthorizationResult True False details # rest)" by blast
  from checkPolkitAuthorization_caching
         [of "authority_reply example_failed" "'':1.42''" apply_runtime ?st1 True
             "authority_reply example_failed"
             "[(authority_reply example_denied, '':1.7'', apply_runtime)]"]
       cached
  have h: "fst (checkPolkitAuthorization (authority_reply example_failed) '':1.42'' apply_runtime
       (later_state [(authority_reply example_denied, '':1.7'', apply_runtime)] ?st1))"
    by simp
  from changed r cached h show ?thesis by blast
qed

text \<open>
  Claim C4. When the authority is asked (nothing is cached for the caller and action)
  and its reply is an error message, has no arguments, or has a first argument that is
  not the result structure, \<open>checkPolkitAuthorization\<close> returns false and caches
  nothing.
\<close>

theorem checkPolkitAuthorization_fail_closed:
  "m_authorizedSenders st (sender @ actionId) = None \<Longrightarrow>
   reply = ErrorMessage e \<or> reply = MethodReturn [] \<or> reply = MethodReturn (OtherValue # rest) \<Longrightarrow>
   \<not> fst (checkPolkitAuthorization reply sender actionId st)
   \<and> m_authorizedSenders (snd (checkPolkitAuthorization reply sender actionId st))
       = m_authorizedSenders st"
  by (auto simp: checkPolkitAuthorization_def Let_def)

theorem checkPolkitAuthorization_fail_closed_witness:
  "\<not> fst (checkPolkitAuthorization (ErrorMessage ''org.freedesktop.DBus.Error.NoReply'')
            '':1.42'' apply_runtime example_state)
   \<and> \<not> fst (checkPolkitAuthorization (MethodReturn []) '':1.42'' apply_runtime example_state)"
proof -
  have miss: "m_authorizedSenders example_state ('':1.42'' @ apply_runtime) = None"
    by (simp add: example_state_def)
  from checkPolkitAuthorization_fail_closed[OF miss, of "ErrorMessage ''org.freedesktop.DBus.Error.NoReply''" "''org.freedesktop.DBus.Error.NoReply''" "[]"]
       checkPolkitAuthorization_fail_closed[OF miss, of "MethodReturn []" "[]" "[]"]
  show ?thesis by simp
qed

section \<open>Properties of the mutations\<close>

lemma isAuthorized_kernel_files:
  "same_kernel_files st (snd (isAuthorized env actionId (resetIdleTimer st)))"
  by (auto simp: same_kernel_files_def isAuthorized_def checkPolkitAuthorization_def
        resetIdleTimer_def Let_def split: option.splits polkit_reply.splits prod.splits)

lemma isAuthorized_split:
  "isAuthorized env apply_runtime (resetIdleTimer st) = (gate_passed env st, state_after_gate env st)"
  by (simp add: gate_passed_def state_after_gate_def)

lemma min_max_path_distinct: "minFreqPath cpu \<noteq> maxFreqPath cpu"
  by (simp add: minFreqPath_def maxFreqPath_def filePath_def SCALING_MIN_FREQ_def
        SCALING_MAX_FREQ_def)

lemma writeSysfsFile_writable:
  "writable s p \<Longrightarrow>
   writeSysfsFile p v s
   = (True, s\<lparr>write_attempts := write_attempts s @ [(p, v)], files := (files s)(p \<mapsto> v)\<rparr>)"
  by (simp add: writeSysfsFile_def Let_def)

lemma scaling_after_min_write:
  assumes "is_int n" and "writable s (minFreqPath cpu)"
  shows "scaling_min (snd (writeSysfsFile (minFreqPath cpu) (number n) s)) cpu = n"
    and "scaling_max (snd (writeSysfsFile (minFreqPath cpu) (number n) s)) cpu = scaling_max s cpu"
    and "writable (snd (writeSysfsFile (minFreqPath cpu) (number n) s)) = writable s"
    and "write_attempts (snd (writeSysfsFile (minFreqPath cpu) (number n) s))
         = write_attempts s @ [(minFreqPath cpu, number n)]"
  using assms min_max_path_distinct[of cpu]
  by (simp_all add: writeSysfsFile_writable scaling_min_def scaling_max_def readSysfsFile_def
        toInt_trimmed_number minFreqPath_def[symmetric] maxFreqPath_def[symmetric])

lemma scaling_after_max_write:
  assumes "is_int n" and "writable s (maxFreqPath cpu)"
  shows "scaling_max (snd (writeSysfsFile (maxFreqPath cpu) (number n) s)) cpu = n"
    and "scaling_min (snd (writeSysfsFile (maxFreqPath cpu) (number n) s)) cpu = scaling_min s cpu"
    and "writable (snd (writeSysfsFile (maxFreqPath cpu) (number n) s)) = writable s"
    and "write_attempts (snd (writeSysfsFile (maxFreqPath cpu) (number n) s))
         = write_attempts s @ [(maxFreqPath cpu, number n)]"
  using assms min_max_path_distinct[of cpu]
  by (simp_all add: writeSysfsFile_writable scaling_min_def scaling_max_def readSysfsFile_def
        toInt_trimmed_number minFreqPath_def[symmetric] maxFreqPath_def[symmetric])

lemma update_cpu_settings_unfold:
  assumes "gate_passed env st"
      and "present_and_online (state_after_gate env st) cpu = Some True"
      and "writable (state_after_gate env st) (minFreqPath cpu)"
      and "writable (state_after_gate env st) (maxFreqPath cpu)"
  shows "update_cpu_settings env cpu new_min new_max st
         = Some (0, last (states_after_writes
                            (claimed_write_order cpu (scaling_min (state_after_gate env st) cpu)
                               (scaling_max (state_after_gate env st) cpu) new_min new_max)
                            (state_after_gate env st)))"
  using assms
  by (simp add: update_cpu_settings_def isAuthorized_split claimed_write_order_def Let_def
        scaling_min_def scaling_max_def minFreqPath_def[symmetric] maxFreqPath_def[symmetric]
        writeSysfsFile_writable split: prod.splits)


text \<open>
  The order of the two calls of \<open>writeSysfsFile\<close> is the claimed one whether or not the
  writes succeed.
\<close>

lemma writeSysfsFile_log:
  "write_attempts (snd (writeSysfsFile p v s)) = write_attempts s @ [(p, v)]"
  by (simp add: writeSysfsFile_def Let_def)

lemma update_cpu_settings_attempt_order:
  assumes "gate_passed env st"
      and "present_and_online (state_after_gate env st) cpu = Some True"
  shows "\<exists>code st'.
           update_cpu_settings env cpu new_min new_max st = Some (code, st')
         \<and> write_attempts st'
             = write_attempts st
               @ claimed_write_order cpu (scaling_min (state_after_gate env st) cpu)
                   (scaling_max (state_after_gate env st) cpu) new_min new_max"
proof -
  have log: "write_attempts (state_after_gate env st) = write_attempts st"
    using isAuthorized_kernel_files[of st env apply_runtime]
    by (simp add: same_kernel_files_def state_after_gate_def)
  show ?thesis
    using assms log
    by (simp add: update_cpu_settings_def isAuthorized_split claimed_write_order_def Let_def
          scaling_min_def scaling_max_def minFreqPath_def[symmetric] maxFreqPath_def[symmetric]
          split_beta writeSysfsFile_log)
qed

text \<open>
  When both frequency files can be opened for writing, and the current values satisfy
  \<open>min \<le> max\<close>, the call returns 0, the two writes are made in the claimed order,
  the state after each of them satisfies \<open>min \<le> max\<close>, and the final values are the
  requested ones.
\<close>

lemma update_cpu_settings_when_writes_succeed:
  assumes gate: "gate_passed env st"
      and avail: "present_and_online (state_after_gate env st) cpu = Some True"
      and ints: "is_int new_min" "is_int new_max"
      and le: "new_min \<le> new_max"
      and cur: "scaling_min (state_after_gate env st) cpu \<le> scaling_max (state_after_gate env st) cpu"
      and wmin: "writable (state_after_gate env st) (minFreqPath cpu)"
      and wmax: "writable (state_after_gate env st) (maxFreqPath cpu)"
  shows "update_cpu_settings env cpu new_min new_max st
         = Some (0, last (states_after_writes
                            (claimed_write_order cpu (scaling_min (state_after_gate env st) cpu)
                               (scaling_max (state_after_gate env st) cpu) new_min new_max)
                            (state_after_gate env st)))
       \<and> write_attempts (last (states_after_writes
                            (claimed_write_order cpu (scaling_min (state_after_gate env st) cpu)
                               (scaling_max (state_after_gate env st) cpu) new_min new_max)
                            (state_after_gate env st)))
           = write_attempts st @ claimed_write_order cpu (scaling_min (state_after_gate env st) cpu)
                               (scaling_max (state_after_gate env st) cpu) new_min new_max
       \<and> list_all (\<lambda>s. scaling_min s cpu \<le> scaling_max s cpu)
           (states_after_writes
              (claimed_write_order cpu (scaling_min (state_after_gate env st) cpu)
                 (scaling_max (state_after_gate env st) cpu) new_min new_max)
              (state_after_gate env st))
       \<and> scaling_min (last (states_after_writes
                            (claimed_write_order cpu (scaling_min (state_after_gate env st) cpu)
                               (scaling_max (state_after_gate env st) cpu) new_min new_max)
                            (state_after_gate env st))) cpu = new_min
       \<and> scaling_max (last (states_after_writes
                            (claimed_write_order cpu (scaling_min (state_after_gate env st) cpu)
                               (scaling_max (state_after_gate env st) cpu) new_min new_max)
                            (state_after_gate env st))) cpu = new_max"
proof -
  let ?st1 = "state_after_gate env st"
  define order where
    "order = claimed_write_order cpu (scaling_min ?st1 cpu) (scaling_max ?st1 cpu) new_min new_max"
  define sts where "sts = states_after_writes order ?st1"
  let ?a = "snd (writeSysfsFile (minFreqPath cpu) (number new_min) ?st1)"
  let ?b = "snd (writeSysfsFile (maxFreqPath cpu) (number new_max) ?st1)"
  let ?ab = "snd (writeSysfsFile (maxFreqPath cpu) (number new_max) ?a)"
  let ?ba = "snd (writeSysfsFile (minFreqPath cpu) (number new_min) ?b)"
  have log: "write_attempts ?st1 = write_attempts st"
    using isAuthorized_kernel_files[of st env apply_runtime]
    by (simp add: same_kernel_files_def state_after_gate_def)
  have ret: "update_cpu_settings env cpu new_min new_max st = Some (0, last sts)"
    unfolding sts_def order_def using gate avail wmin wmax by (rule update_cpu_settings_unfold)
  have min_first:
    "states_after_writes [(minFreqPath cpu, number new_min), (maxFreqPath cpu, number new_max)] ?st1
     = [?a, ?ab]"
    by (simp add: Let_def)
  have max_first:
    "states_after_writes [(maxFreqPath cpu, number new_max), (minFreqPath cpu, number new_min)] ?st1
     = [?b, ?ba]"
    by (simp add: Let_def)
  have a: "scaling_min ?a cpu = new_min" "scaling_max ?a cpu = scaling_max ?st1 cpu"
          "writable ?a (maxFreqPath cpu)"
          "write_attempts ?a = write_attempts st @ [(minFreqPath cpu, number new_min)]"
    using scaling_after_min_write[OF ints(1) wmin] wmax log by simp_all
  have b: "scaling_max ?b cpu = new_max" "scaling_min ?b cpu = scaling_min ?st1 cpu"
          "writable ?b (minFreqPath cpu)"
          "write_attempts ?b = write_attempts st @ [(maxFreqPath cpu, number new_max)]"
    using scaling_after_max_write[OF ints(2) wmax] wmin log by simp_all
  have ab: "scaling_max ?ab cpu = new_max" "scaling_min ?ab cpu = new_min"
           "write_attempts ?ab = write_attempts st @ [(minFreqPath cpu, number new_min),
                                                       (maxFreqPath cpu, number new_max)]"
    using scaling_after_max_write[OF ints(2) a(3)] a by simp_all
  have ba: "scaling_min ?ba cpu = new_min" "scaling_max ?ba cpu = new_max"
           "write_attempts ?ba = write_attempts st @ [(maxFreqPath cpu, number new_max),
                                                       (minFreqPath cpu, number new_min)]"
    using scaling_after_min_write[OF ints(1) b(3)] b by simp_all
  have main: "update_cpu_settings env cpu new_min new_max st = Some (0, last sts)
       \<and> write_attempts (last sts) = write_attempts st @ order
       \<and> list_all (\<lambda>s. scaling_min s cpu \<le> scaling_max s cpu) sts
       \<and> scaling_min (last sts) cpu = new_min
       \<and> scaling_max (last sts) cpu = new_max"
  proof (cases "new_max < scaling_min ?st1 cpu")
    case True
    then have o: "order = [(minFreqPath cpu, number new_min), (maxFreqPath cpu, number new_max)]"
      by (simp add: order_def claimed_write_order_def)
    have s: "sts = [?a, ?ab]" unfolding sts_def o by (rule min_first)
    have "new_min \<le> scaling_max ?st1 cpu" using True le cur by simp
    then show ?thesis unfolding s o using ret[unfolded s] le a ab by simp
  next
    case False
    show ?thesis
    proof (cases "new_min > scaling_max ?st1 cpu")
      case True
      with False have o:
        "order = [(maxFreqPath cpu, number new_max), (minFreqPath cpu, number new_min)]"
        by (simp add: order_def claimed_write_order_def)
      have s: "sts = [?b, ?ba]" unfolding sts_def o by (rule max_first)
      show ?thesis unfolding s o using ret[unfolded s] le False b ba by simp
    next
      case F2: False
      with False have o:
        "order = [(minFreqPath cpu, number new_min), (maxFreqPath cpu, number new_max)]"
        by (simp add: order_def claimed_write_order_def)
      have s: "sts = [?a, ?ab]" unfolding sts_def o by (rule min_first)
      show ?thesis unfolding s o using ret[unfolded s] le F2 a ab by simp
    qed
  qed
  then show ?thesis unfolding sts_def order_def .
qed

lemma update_cpu_settings_when_writes_succeed_example:
  "update_cpu_settings example_granted 2 2200000 2500000 example_state
   = Some (0, last (states_after_writes
                [(maxFreqPath 2, ''2500000''), (minFreqPath 2, ''2200000'')]
                (state_after_gate example_granted example_state)))
   \<and> list_all (\<lambda>s. scaling_min s 2 \<le> scaling_max s 2)
        (states_after_writes [(maxFreqPath 2, ''2500000''), (minFreqPath 2, ''2200000'')]
           (state_after_gate example_granted example_state))"
proof -
  let ?st1 = "state_after_gate example_granted example_state"
  have 1: "gate_passed example_granted example_state" by code_simp
  have 2: "present_and_online ?st1 2 = Some True" by code_simp
  have 3: "is_int 2200000" "is_int 2500000" by code_simp+
  have 4: "(2200000::int) \<le> 2500000" by simp
  have 5: "scaling_min ?st1 2 \<le> scaling_max ?st1 2" by code_simp
  have 6: "writable ?st1 (minFreqPath 2)" "writable ?st1 (maxFreqPath 2)" by code_simp+
  have 7: "claimed_write_order 2 (scaling_min ?st1 2) (scaling_max ?st1 2) 2200000 2500000
           = [(maxFreqPath 2, ''2500000''), (minFreqPath 2, ''2200000'')]"
    by code_simp
  from update_cpu_settings_when_writes_succeed[OF 1 2 3 4 5 6] show ?thesis
    unfolding 7 by simp
qed

text \<open>
  For the invariant it is enough that the first write of the chosen order takes
  effect: whether the second one then succeeds or is refused, the state after it
  satisfies \<open>min \<le> max\<close>.
\<close>

lemma writeSysfsFile_keeps_writable: "writable (snd (writeSysfsFile p v s)) = writable s"
  by (simp add: writeSysfsFile_def Let_def)

lemma writeSysfsFile_refused:
  "\<not> writable s p \<Longrightarrow> files (snd (writeSysfsFile p v s)) = files s"
  by (simp add: writeSysfsFile_def Let_def)

lemma scaling_after_refused_write:
  assumes "\<not> writable s p"
  shows "scaling_min (snd (writeSysfsFile p v s)) cpu = scaling_min s cpu"
    and "scaling_max (snd (writeSysfsFile p v s)) cpu = scaling_max s cpu"
  using writeSysfsFile_refused[OF assms, of v]
  by (simp_all add: scaling_min_def scaling_max_def readSysfsFile_def)

lemma update_cpu_settings_final_state:
  assumes "gate_passed env st"
      and "present_and_online (state_after_gate env st) cpu = Some True"
  shows "\<exists>code.
           update_cpu_settings env cpu new_min new_max st
           = Some (code, last (states_after_writes
                            (claimed_write_order cpu (scaling_min (state_after_gate env st) cpu)
                               (scaling_max (state_after_gate env st) cpu) new_min new_max)
                            (state_after_gate env st)))"
  using assms
  by (simp add: update_cpu_settings_def isAuthorized_split claimed_write_order_def Let_def
        scaling_min_def scaling_max_def minFreqPath_def[symmetric] maxFreqPath_def[symmetric]
        split_beta)

lemma first_write_suffices:
  assumes ints: "is_int new_min" "is_int new_max"
      and le: "new_min \<le> new_max"
      and cur: "scaling_min st1 cpu \<le> scaling_max st1 cpu"
      and first: "writable st1
                    (fst (hd (claimed_write_order cpu (scaling_min st1 cpu) (scaling_max st1 cpu)
                                new_min new_max)))"
  shows "list_all (\<lambda>s. scaling_min s cpu \<le> scaling_max s cpu)
           (states_after_writes
              (claimed_write_order cpu (scaling_min st1 cpu) (scaling_max st1 cpu) new_min new_max)
              st1)"
proof -
  let ?a = "snd (writeSysfsFile (minFreqPath cpu) (number new_min) st1)"
  let ?b = "snd (writeSysfsFile (maxFreqPath cpu) (number new_max) st1)"
  let ?ab = "snd (writeSysfsFile (maxFreqPath cpu) (number new_max) ?a)"
  let ?ba = "snd (writeSysfsFile (minFreqPath cpu) (number new_min) ?b)"
  have min_first:
    "states_after_writes [(minFreqPath cpu, number new_min), (maxFreqPath cpu, number new_max)] st1
     = [?a, ?ab]"
    by (simp add: Let_def)
  have max_first:
    "states_after_writes [(maxFreqPath cpu, number new_max), (minFreqPath cpu, number new_min)] st1
     = [?b, ?ba]"
    by (simp add: Let_def)
  have min_then_max:
    "scaling_min ?a cpu \<le> scaling_max ?a cpu \<and> scaling_min ?ab cpu \<le> scaling_max ?ab cpu"
    if w: "writable st1 (minFreqPath cpu)" and ok: "new_min \<le> scaling_max st1 cpu"
  proof -
    note a = scaling_after_min_write[OF ints(1) w]
    show ?thesis
    proof (cases "writable ?a (maxFreqPath cpu)")
      case True
      from scaling_after_max_write[OF ints(2) True] a ok le show ?thesis by simp
    next
      case False
      from scaling_after_refused_write[OF False] a ok show ?thesis by simp
    qed
  qed
  have max_then_min:
    "scaling_min ?b cpu \<le> scaling_max ?b cpu \<and> scaling_min ?ba cpu \<le> scaling_max ?ba cpu"
    if w: "writable st1 (maxFreqPath cpu)" and ok: "scaling_min st1 cpu \<le> new_max"
  proof -
    note b = scaling_after_max_write[OF ints(2) w]
    show ?thesis
    proof (cases "writable ?b (minFreqPath cpu)")
      case True
      from scaling_after_min_write[OF ints(1) True] b ok le show ?thesis by simp
    next
      case False
      from scaling_after_refused_write[OF False] b ok show ?thesis by simp
    qed
  qed
  show ?thesis
  proof (cases "new_max < scaling_min st1 cpu")
    case True
    then have o: "claimed_write_order cpu (scaling_min st1 cpu) (scaling_max st1 cpu) new_min new_max
                  = [(minFreqPath cpu, number new_min), (maxFreqPath cpu, number new_max)]"
      by (simp add: claimed_write_order_def)
    have "new_min \<le> scaling_max st1 cpu" using True le cur by simp
    with first min_then_max show ?thesis unfolding o min_first by simp
  next
    case False
    show ?thesis
    proof (cases "new_min > scaling_max st1 cpu")
      case True
      with False have o:
        "claimed_write_order cpu (scaling_min st1 cpu) (scaling_max st1 cpu) new_min new_max
         = [(maxFreqPath cpu, number new_max), (minFreqPath cpu, number new_min)]"
        by (simp add: claimed_write_order_def)
      from first max_then_min False show ?thesis unfolding o max_first by simp
    next
      case F2: False
      with False have o:
        "claimed_write_order cpu (scaling_min st1 cpu) (scaling_max st1 cpu) new_min new_max
         = [(minFreqPath cpu, number new_min), (maxFreqPath cpu, number new_max)]"
        by (simp add: claimed_write_order_def)
      from first min_then_max F2 show ?thesis unfolding o min_first by simp
    qed
  qed
qed

text \<open>
  Claim C1. "After every individual write in the chosen sequence the state satisfies
  min \<le> max." The order of the writes is the claimed one, but the code goes on to
  the second write after the first one has failed, and that breaks the rule. CPU 2 has
  (800000, 2000000). With \<open>scaling_min_freq\<close> not writable and the request
  (200000, 500000), the call returns -13 and leaves min 800000 above max 500000; with
  \<open>scaling_max_freq\<close> not writable and the request (2200000, 2500000), it returns -13
  and leaves min 2200000 above max 2000000.
\<close>

theorem update_cpu_settings_writes_after_failed_write:
  "gate_passed example_granted example_min_unwritable
   \<and> present_and_online (state_after_gate example_granted example_min_unwritable) 2 = Some True
   \<and> scaling_min (state_after_gate example_granted example_min_unwritable) 2 = 800000
   \<and> scaling_max (state_after_gate example_granted example_min_unwritable) 2 = 2000000
   \<and> update_cpu_settings example_granted 2 200000 500000 example_min_unwritable \<noteq> None
   \<and> fst (the (update_cpu_settings example_granted 2 200000 500000 example_min_unwritable)) = - 13
   \<and> write_attempts
         (snd (the (update_cpu_settings example_granted 2 200000 500000 example_min_unwritable)))
       = [(minFreqPath 2, ''200000''), (maxFreqPath 2, ''500000'')]
   \<and> scaling_min
         (snd (the (update_cpu_settings example_granted 2 200000 500000 example_min_unwritable))) 2
       = 800000
   \<and> scaling_max
         (snd (the (update_cpu_settings example_granted 2 200000 500000 example_min_unwritable))) 2
       = 500000
   \<and> gate_passed example_granted example_max_unwritable
   \<and> present_and_online (state_after_gate example_granted example_max_unwritable) 2 = Some True
   \<and> update_cpu_settings example_granted 2 2200000 2500000 example_max_unwritable \<noteq> None
   \<and> fst (the (update_cpu_settings example_granted 2 2200000 2500000 example_max_unwritable))
       = - 13
   \<and> write_attempts
         (snd (the (update_cpu_settings example_granted 2 2200000 2500000 example_max_unwritable)))
       = [(maxFreqPath 2, ''2500000''), (minFreqPath 2, ''2200000'')]
   \<and> scaling_min
         (snd (the (update_cpu_settings example_granted 2 2200000 2500000 example_max_unwritable))) 2
       = 2200000
   \<and> scaling_max
         (snd (the (update_cpu_settings example_granted 2 2200000 2500000 example_max_unwritable))) 2
       = 2000000"
  by code_simp

text \<open>
  Claim C3. When the authorization gate denies the caller, each of the five mutations
  returns -1, and no control file has changed and \<open>writeSysfsFile\<close> has not been
  called.
\<close>

theorem denied_mutation_writes_nothing:
  assumes "\<not> gate_passed env st"
  shows "update_cpu_settings env cpu freq_min freq_max st = Some (- 1, state_after_gate env st)
       \<and> update_cpu_governor env cpu governor st = Some (- 1, state_after_gate env st)
       \<and> update_cpu_energy_prefs env cpu pref st = Some (- 1, state_after_gate env st)
       \<and> set_cpu_online env cpu st = Some (- 1, state_after_gate env st)
       \<and> set_cpu_offline env cpu st = Some (- 1, state_after_gate env st)
       \<and> same_kernel_files st (state_after_gate env st)"
proof -
  have "same_kernel_files st (state_after_gate env st)"
    unfolding state_after_gate_def by (rule isAuthorized_kernel_files)
  with assms show ?thesis
    by (simp add: update_cpu_settings_def update_cpu_governor_def update_cpu_energy_prefs_def
          set_cpu_online_def set_cpu_offline_def isAuthorized_split)
qed

theorem denied_mutation_writes_nothing_witness:
  "update_cpu_settings example_denied 2 2200000 2500000 example_state
     = Some (- 1, state_after_gate example_denied example_state)
   \<and> set_cpu_offline example_failed 2 example_state
     = Some (- 1, state_after_gate example_failed example_state)
   \<and> same_kernel_files example_state (state_after_gate example_denied example_state)"
proof -
  have d: "\<not> gate_passed example_denied example_state" by code_simp
  have f: "\<not> gate_passed example_failed example_state" by code_simp
  from denied_mutation_writes_nothing[OF d, of 2 2200000 2500000]
       denied_mutation_writes_nothing[OF f, of 2]
  show ?thesis by simp
qed

text \<open>
  Claim C8. For an authorized call of \<open>update_cpu_energy_prefs\<close> on a CPU that is
  present and online: when the preference is not among those the unit lists as
  available, or the preference control file does not exist, the call returns 0, no
  control file has changed and \<open>writeSysfsFile\<close> has not been called.
\<close>

theorem unsupported_energy_pref_is_noop:
  assumes "gate_passed env st"
      and "present_and_online (state_after_gate env st) cpu = Some True"
      and "pref \<notin> set (parseList (readSysfsFile (state_after_gate env st)
                                    (filePath (cpufreqPath cpu) ENERGY_PERF_AVAIL)))
           \<or> \<not> fileExists (state_after_gate env st) (filePath (cpufreqPath cpu) ENERGY_PERF_PREF)"
  shows "update_cpu_energy_prefs env cpu pref st = Some (0, state_after_gate env st)
       \<and> same_kernel_files st (state_after_gate env st)"
proof -
  have "same_kernel_files st (state_after_gate env st)"
    unfolding state_after_gate_def by (rule isAuthorized_kernel_files)
  with assms show ?thesis
    by (auto simp: update_cpu_energy_prefs_def isAuthorized_split get_cpu_energy_preferences_def)
qed

theorem unsupported_energy_pref_is_noop_witness:
  "update_cpu_energy_prefs example_granted 3 ''bogus'' example_state
     = Some (0, state_after_gate example_granted example_state)
   \<and> same_kernel_files example_state (state_after_gate example_granted example_state)"
proof -
  have a: "gate_passed example_granted example_state" by code_simp
  have b: "present_and_online (state_after_gate example_granted example_state) 3 = Some True"
    by code_simp
  have c: "''bogus'' \<notin> set (parseList (readSysfsFile (state_after_gate example_granted example_state)
                                    (filePath (cpufreqPath 3) ENERGY_PERF_AVAIL)))
           \<or> \<not> fileExists (state_after_gate example_granted example_state) (filePath (cpufreqPath 3) ENERGY_PERF_PREF)"
    by code_simp
  from unsupported_energy_pref_is_noop[OF a b c] show ?thesis .
qed

section \<open>What the older copies do instead\<close>

text \<open>
  The older \<open>checkPolkitAuthorization\<close> caches a denial: after it, the same caller
  is refused without the authority being asked, even when the authority would now
  agree.
\<close>

lemma checkPolkitAuthorization_old_caches_denial:
  "m_authorizedSenders
     (snd (checkPolkitAuthorization_old (authority_reply example_denied) '':1.42'' apply_runtime
             example_state)) ('':1.42'' @ apply_runtime) = Some False
   \<and> fst (checkPolkitAuthorization_old (authority_reply example_granted) '':1.42'' apply_runtime
            (snd (checkPolkitAuthorization_old (authority_reply example_denied) '':1.42''
                    apply_runtime example_state))) = False"
  by (simp add: checkPolkitAuthorization_old_def example_denied_def example_granted_def
        example_state_def)

text \<open>
  The older \<open>update_cpu_settings\<close> writes the minimum first also when the new minimum
  is above the current maximum: for CPU 2 at (800000, 2000000) and the request
  (2200000, 2500000) the state after the first write has min 2200000 above max
  2000000.
\<close>

lemma update_cpu_settings_old_min_first:
  "map_option fst (update_cpu_settings_old example_granted 2 2200000 2500000 example_state) = Some 0
   \<and> write_attempts
         (snd (the (update_cpu_settings_old example_granted 2 2200000 2500000 example_state)))
       = [(minFreqPath 2, ''2200000''), (maxFreqPath 2, ''2500000'')]
   \<and> scaling_min (snd (writeSysfsFile (minFreqPath 2) ''2200000''
                         (snd (isAuthorized_old example_granted apply_runtime example_state)))) 2
       = 2200000
   \<and> scaling_max (snd (writeSysfsFile (minFreqPath 2) ''2200000''
                         (snd (isAuthorized_old example_granted apply_runtime example_state)))) 2
       = 2000000"
  by code_simp

section \<open>Properties of the operation scheduler\<close>

lemma setOperationInProgress_fields:
  "m_connected (setOperationInProgress b st) = m_connected st"
  "m_operationInProgress (setOperationInProgress b st) = b"
  "m_batchMode (setOperationInProgress b st) = m_batchMode st"
  "m_operationQueue (setOperationInProgress b st) = m_operationQueue st"
  "m_batchErrors (setOperationInProgress b st) = m_batchErrors st"
  "m_batchHadErrors (setOperationInProgress b st) = m_batchHadErrors st"
  "pending_calls (setOperationInProgress b st) = pending_calls st"
  "enqueued (setOperationInProgress b st) = enqueued st"
  "dequeued (setOperationInProgress b st) = dequeued st"
  "batch_signals (setOperationInProgress b st) = batch_signals st"
  by (auto simp: setOperationInProgress_def batch_signals_def)

lemma record_failure_fields:
  "m_connected (record_failure d e st) = m_connected st"
  "m_operationInProgress (record_failure d e st) = m_operationInProgress st"
  "m_batchMode (record_failure d e st) = m_batchMode st"
  "m_operationQueue (record_failure d e st) = m_operationQueue st"
  "m_batchErrors (record_failure d e st) = m_batchErrors st @ [d @ '': '' @ e]"
  "m_batchHadErrors (record_failure d e st) = True"
  "pending_calls (record_failure d e st) = pending_calls st"
  "enqueued (record_failure d e st) = enqueued st"
  "dequeued (record_failure d e st) = dequeued st"
  "batch_signals (record_failure d e st) = batch_signals st"
  by (auto simp: record_failure_def batch_signals_def)

lemma processNextOperation_empty:
  "m_operationQueue st = [] \<Longrightarrow>
   processNextOperation st =
     (let st1 = setOperationInProgress False st
      in if m_batchMode st1
         then st1\<lparr>m_batchMode := False,
                  emitted := emitted st1 @
                               [batchCompleted (\<not> m_batchHadErrors st1) (m_batchErrors st1)],
                  m_batchErrors := [],
                  m_batchHadErrors := False\<rparr>
         else st1)"
  by (subst processNextOperation.simps) simp

lemma processNextOperation_connected:
  "m_operationQueue st = op # rest \<Longrightarrow> m_connected st \<Longrightarrow>
   processNextOperation st =
     (setOperationInProgress True st)
       \<lparr>m_operationQueue := rest, dequeued := dequeued st @ [op],
        pending_calls := pending_calls st @ [op]\<rparr>"
  by (subst processNextOperation.simps) (simp add: Let_def setOperationInProgress_fields)

lemma processNextOperation_disconnected:
  "m_operationQueue st = op # rest \<Longrightarrow> \<not> m_connected st \<Longrightarrow>
   processNextOperation st =
     processNextOperation
       (record_failure (description op) ''Not connected to D-Bus service''
          ((setOperationInProgress True st)
             \<lparr>m_operationQueue := rest, dequeued := dequeued st @ [op]\<rparr>))"
  by (subst processNextOperation.simps) (simp add: Let_def setOperationInProgress_fields)

lemma processNextOperation_invariant:
  "pending_calls st = [] \<Longrightarrow> dequeued st @ m_operationQueue st = enqueued st \<Longrightarrow>
   scheduler_invariant (processNextOperation st)"
proof (induction "m_operationQueue st" arbitrary: st)
  case Nil
  then show ?case
    by (simp add: processNextOperation_empty[OF Nil(1)[symmetric]] scheduler_invariant_def
          Let_def setOperationInProgress_fields)
next
  case (Cons op rest)
  show ?case
  proof (cases "m_connected st")
    case True
    with Cons show ?thesis
      by (simp add: processNextOperation_connected[OF Cons(2)[symmetric] True]
            scheduler_invariant_def setOperationInProgress_fields)
  next
    case False
    let ?st' = "record_failure (description op) ''Not connected to D-Bus service''
          ((setOperationInProgress True st)
             \<lparr>m_operationQueue := rest, dequeued := dequeued st @ [op]\<rparr>)"
    have "scheduler_invariant (processNextOperation ?st')"
    proof (rule Cons(1))
      show "rest = m_operationQueue ?st'" by (simp add: record_failure_fields)
      show "pending_calls ?st' = []" using Cons(3)
        by (simp add: record_failure_fields setOperationInProgress_fields)
      show "dequeued ?st' @ m_operationQueue ?st' = enqueued ?st'" using Cons(4) Cons(2)[symmetric]
        by (simp add: record_failure_fields setOperationInProgress_fields)
    qed
    then show ?thesis
      by (simp add: processNextOperation_disconnected[OF Cons(2)[symmetric] False])
  qed
qed


lemma record_reply_unchanged:
  "m_connected (record_reply d reply st) = m_connected st"
  "m_operationInProgress (record_reply d reply st) = m_operationInProgress st"
  "m_batchMode (record_reply d reply st) = m_batchMode st"
  "m_operationQueue (record_reply d reply st) = m_operationQueue st"
  "pending_calls (record_reply d reply st) = pending_calls st"
  "enqueued (record_reply d reply st) = enqueued st"
  "dequeued (record_reply d reply st) = dequeued st"
  by (cases reply; simp add: record_reply_def record_failure_fields)+

lemma record_reply_batch_signals: "batch_signals (record_reply d reply st) = batch_signals st"
  by (cases reply) (simp_all add: record_reply_def record_failure_fields, simp add: batch_signals_def)

lemma record_reply_hadErrors:
  "m_batchHadErrors (record_reply d reply st) = (m_batchHadErrors st \<or> reply_failed reply)"
  by (cases reply) (simp_all add: record_reply_def record_failure_fields)

lemma record_reply_errors:
  "length (m_batchErrors (record_reply d reply st))
   = length (m_batchErrors st) + (if reply_failed reply then 1 else 0)"
  by (cases reply) (simp_all add: record_reply_def record_failure_fields)

lemmas record_reply_fields =
  record_reply_unchanged record_reply_batch_signals record_reply_hadErrors record_reply_errors

lemma scheduler_step_invariant:
  assumes "scheduler_invariant st"
  shows "scheduler_invariant (scheduler_step st event)"
proof (cases event)
  case (Enqueue op)
  let ?st1 = "st\<lparr>m_operationQueue := m_operationQueue st @ [op], enqueued := enqueued st @ [op]\<rparr>"
  have op: "\<lparr>method_name = method_name op, args = args op, description = description op\<rparr> = op"
    by simp
  show ?thesis
  proof (cases "\<not> m_operationInProgress st \<and> \<not> m_batchMode st")
    case True
    with assms have "pending_calls ?st1 = []" "dequeued ?st1 @ m_operationQueue ?st1 = enqueued ?st1"
      by (auto simp: scheduler_invariant_def)
    then have "scheduler_invariant (processNextOperation ?st1)"
      by (rule processNextOperation_invariant)
    with True show ?thesis by (simp add: Enqueue queueOperation_def Let_def op)
  next
    case False
    with assms show ?thesis
      by (auto simp: Enqueue queueOperation_def Let_def op scheduler_invariant_def)
  qed
next
  case BeginBatch
  with assms show ?thesis by (simp add: beginBatch_def scheduler_invariant_def)
next
  case EndBatch
  show ?thesis
  proof (cases "m_operationInProgress st")
    case True
    with assms show ?thesis by (simp add: EndBatch endBatch_def)
  next
    case False
    with assms have p: "pending_calls st = []" "dequeued st @ m_operationQueue st = enqueued st"
      by (auto simp: scheduler_invariant_def)
    then have "scheduler_invariant (processNextOperation st)"
      by (rule processNextOperation_invariant)
    show ?thesis
    proof (cases "m_operationQueue st = []")
      case True
      with False assms show ?thesis
        by (simp add: EndBatch endBatch_def scheduler_invariant_def)
    next
      case nonempty: False
      with False \<open>scheduler_invariant (processNextOperation st)\<close> show ?thesis
        by (simp add: EndBatch endBatch_def)
    qed
  qed
next
  case (Finished i reply)
  show ?thesis
  proof (cases "length (pending_calls st) \<le> i")
    case True
    with assms show ?thesis by (simp add: Finished onAsyncCallFinished_def)
  next
    case False
    with assms have i: "i = 0" and len: "length (pending_calls st) = 1"
      by (auto simp: scheduler_invariant_def)
    let ?st0 = "st\<lparr>pending_calls := take i (pending_calls st) @ drop (Suc i) (pending_calls st)\<rparr>"
    let ?st1 = "record_reply (description (pending_calls st ! i)) reply ?st0"
    have "pending_calls ?st0 = []" using i len by simp
    moreover have "dequeued ?st0 @ m_operationQueue ?st0 = enqueued ?st0"
      using assms by (simp add: scheduler_invariant_def)
    ultimately have "pending_calls ?st1 = []" "dequeued ?st1 @ m_operationQueue ?st1 = enqueued ?st1"
      by (simp_all only: record_reply_fields)
    then have "scheduler_invariant (processNextOperation ?st1)"
      by (rule processNextOperation_invariant)
    with False show ?thesis by (simp add: Finished onAsyncCallFinished_def Let_def)
  qed
qed

lemma scheduler_run_invariant:
  "scheduler_invariant st \<Longrightarrow> scheduler_invariant (scheduler_run st events)"
  unfolding scheduler_run_def
  by (induction events arbitrary: st) (simp_all add: scheduler_step_invariant)








lemma scheduler_run_append:
  "scheduler_run st (xs @ ys) = scheduler_run (scheduler_run st xs) ys"
  by (simp add: scheduler_run_def)












text \<open>
  In every state the scheduler can reach with no batch open, a queued operation is
  being driven by an operation in progress; so there \<open>isOperationInProgress()\<close>
  answering false, which both callers check before \<open>beginBatch\<close>, means that the
  scheduler is idle.
\<close>

lemma processNextOperation_driven: "queue_is_driven (processNextOperation st)"
proof (induction "m_operationQueue st" arbitrary: st)
  case Nil
  then show ?case
    by (simp add: processNextOperation_empty[OF Nil(1)[symmetric]] queue_is_driven_def
          Let_def setOperationInProgress_fields)
next
  case (Cons op rest)
  show ?case
  proof (cases "m_connected st")
    case True
    then show ?thesis
      by (simp add: processNextOperation_connected[OF Cons(2)[symmetric] True]
            queue_is_driven_def setOperationInProgress_fields)
  next
    case False
    let ?st' = "record_failure (description op) ''Not connected to D-Bus service''
          ((setOperationInProgress True st)
             \<lparr>m_operationQueue := rest, dequeued := dequeued st @ [op]\<rparr>)"
    have "rest = m_operationQueue ?st'" by (simp add: record_failure_fields)
    then have "queue_is_driven (processNextOperation ?st')" by (rule Cons(1))
    then show ?thesis
      by (simp add: processNextOperation_disconnected[OF Cons(2)[symmetric] False])
  qed
qed

lemma scheduler_step_driven:
  assumes "queue_is_driven st"
  shows "queue_is_driven (scheduler_step st event)"
proof (cases event)
  case (Enqueue op)
  show ?thesis
  proof (cases "\<not> m_operationInProgress st \<and> \<not> m_batchMode st")
    case True
    then show ?thesis
      by (simp add: Enqueue queueOperation_def Let_def processNextOperation_driven)
  next
    case False
    then show ?thesis
      by (auto simp: Enqueue queueOperation_def Let_def queue_is_driven_def)
  qed
next
  case BeginBatch
  then show ?thesis by (simp add: beginBatch_def queue_is_driven_def)
next
  case EndBatch
  then show ?thesis
    by (simp add: endBatch_def processNextOperation_driven) (simp add: queue_is_driven_def)
next
  case (Finished i reply)
  with assms show ?thesis
    by (simp add: onAsyncCallFinished_def Let_def processNextOperation_driven)
qed

lemma scheduler_run_driven:
  "queue_is_driven st \<Longrightarrow> queue_is_driven (scheduler_run st events)"
  unfolding scheduler_run_def
  by (induction events arbitrary: st) (simp_all add: scheduler_step_driven)

lemma guard_gives_idle:
  assumes "\<not> m_operationInProgress (scheduler_run (new_DbusHelper connected) events)"
      and "\<not> m_batchMode (scheduler_run (new_DbusHelper connected) events)"
  shows "scheduler_idle (scheduler_run (new_DbusHelper connected) events)"
proof -
  let ?st = "scheduler_run (new_DbusHelper connected) events"
  have "scheduler_invariant (new_DbusHelper connected)"
    by (simp add: scheduler_invariant_def new_DbusHelper_def)
  then have i: "scheduler_invariant ?st" by (rule scheduler_run_invariant)
  have "queue_is_driven (new_DbusHelper connected)"
    by (simp add: queue_is_driven_def new_DbusHelper_def)
  then have d: "queue_is_driven ?st" by (rule scheduler_run_driven)
  from i d assms show ?thesis
    by (simp add: scheduler_idle_def scheduler_invariant_def queue_is_driven_def)
qed









section \<open>Properties of the settings controller\<close>

text \<open>
  Claim C9. After \<open>updateFromSystem\<close>, and after \<open>resetToSystem\<close>, each of the five
  pending values equals its original value and \<open>isChanged\<close> is false.
\<close>

theorem pending_equals_original_after_refresh:
  "m_newFreqMin (updateFromSystem sys s) = m_origFreqMin (updateFromSystem sys s)
   \<and> m_newFreqMax (updateFromSystem sys s) = m_origFreqMax (updateFromSystem sys s)
   \<and> m_newGovernor (updateFromSystem sys s) = m_origGovernor (updateFromSystem sys s)
   \<and> m_newEnergyPref (updateFromSystem sys s) = m_origEnergyPref (updateFromSystem sys s)
   \<and> m_newOnline (updateFromSystem sys s) = m_origOnline (updateFromSystem sys s)
   \<and> isChanged (updateFromSystem sys s) = False
   \<and> m_newFreqMin (resetToSystem s) = m_origFreqMin (resetToSystem s)
   \<and> m_newFreqMax (resetToSystem s) = m_origFreqMax (resetToSystem s)
   \<and> m_newGovernor (resetToSystem s) = m_origGovernor (resetToSystem s)
   \<and> m_newEnergyPref (resetToSystem s) = m_origEnergyPref (resetToSystem s)
   \<and> m_newOnline (resetToSystem s) = m_origOnline (resetToSystem s)
   \<and> isChanged (resetToSystem s) = False"
  by (simp add: updateFromSystem_def resetToSystem_def isChanged_def isFreqChanged_def
        isGovernorChanged_def isEnergyPrefChanged_def isOnlineChanged_def Let_def)

lemma applyChanges_outcome:
  "(fst (applyChanges dbus s sys) \<noteq> 0 \<and> fst (snd (applyChanges dbus s sys)) = s)
   \<or> (fst (applyChanges dbus s sys) = 0
      \<and> fst (snd (applyChanges dbus s sys))
          = updateFromSystem (snd (snd (applyChanges dbus s sys))) s)"
  apply (cases "isOnlineChanged s"; cases "m_newOnline s"; cases "isFreqChanged s";
         cases "isGovernorChanged s"; cases "isEnergyPrefChanged s \<and> m_energyPrefAvailable s")
  apply (simp_all add: applyChanges_def Let_def split: prod.splits)
  done

lemma applyChanges_refreshes_on_success:
  "fst (applyChanges dbus s sys) = 0 \<Longrightarrow>
   fst (snd (applyChanges dbus s sys)) = updateFromSystem (snd (snd (applyChanges dbus s sys))) s"
  using applyChanges_outcome[of dbus s sys] by simp

lemma applyChanges_keeps_state_on_failure:
  "fst (applyChanges dbus s sys) \<noteq> 0 \<Longrightarrow> fst (snd (applyChanges dbus s sys)) = s"
  using applyChanges_outcome[of dbus s sys] by simp

text \<open>
  Claim C7. "applyChanges refreshes the original values from the system after the
  apply attempt regardless of outcome." It does not when a step fails: with the
  example below the new frequencies reach the system, writing the governor fails, and
  \<open>applyChanges\<close> returns -11 with the original minimum frequency still the old one,
  so the applied frequency edit is still reported as a change.
\<close>

theorem applyChanges_failure_skips_refresh:
  "fst (applyChanges example_dbus example_settings example_system) = - 11
   \<and> scalingFreqs (snd (snd (applyChanges example_dbus example_settings example_system)))
       = (1000000, 2000000)
   \<and> m_origFreqMin (fst (snd (applyChanges example_dbus example_settings example_system)))
       = 800000
   \<and> isFreqChanged (fst (snd (applyChanges example_dbus example_settings example_system)))"
  by (simp add: applyChanges_def example_dbus_def example_settings_def example_system_def
        isOnlineChanged_def isFreqChanged_def isGovernorChanged_def isEnergyPrefChanged_def)

theorem applyChanges_failure_skips_refresh_witness:
  "m_origFreqMin (fst (snd (applyChanges example_dbus example_settings example_system)))
   \<noteq> fst (scalingFreqs (snd (snd (applyChanges example_dbus example_settings example_system))))"
  using applyChanges_failure_skips_refresh by simp

end
